(* ===== verification/Prelude.thy ===== *)
theory Prelude
  imports Main "HOL-Library.Word" "HOL-Library.AList" "HOL-Library.Multiset" "HOL-Library.Sublist"
begin

text \<open>
  Shared vocabulary of the development: the machine types of the Rust sources, the standard
  library functions the code calls (\<open>saturating_sub\<close>, \<open>min_by_key\<close>, \<open>find\<close>, \<open>split\<close>, \<open>trim\<close>),
  association lists standing for \<open>HashMap\<close>/\<open>DashMap\<close> (the list order is the unspecified
  iteration order), reachability of a step relation and the invariant locale used by every
  concurrent component, and the lemma collections the component proofs draw on.
\<close>

unbundle bit_operations_syntax

section \<open>Types\<close>

type_synonym u8 = "8 word"
type_synonym u16 = "16 word"
type_synonym u32 = "32 word"
type_synonym u64 = "64 word"
type_synonym usize = "64 word"
type_synonym i32 = "32 word"

text \<open>Byte strings and ASCII strings are both lists of 8-bit characters.\<close>

type_synonym bytes = string

datatype ip_addr = V4 u32 | V6 "128 word"

text \<open>Times and durations are milliseconds: \<open>Instant\<close>/\<open>Duration\<close> as \<open>nat\<close>, epoch time as \<open>u64\<close>.\<close>

type_synonym instant = nat
type_synonym duration = nat

section \<open>Lemma collections\<close>

named_theorems alist_simps \<open>lookups after updates of association lists\<close>
named_theorems frame_simps \<open>fields an operation leaves alone\<close>

section \<open>Standard library functions\<close>

definition saturating_sub :: "u64 \<Rightarrow> u64 \<Rightarrow> u64" where
  "saturating_sub a b = (if a < b then 0 else a - b)"

lemma unat_saturating_sub: "unat (saturating_sub a b) = unat a - unat b"
  by (simp add: saturating_sub_def word_less_nat_alt unat_sub word_le_nat_alt)

text \<open>\<open>Iterator::min_by_key\<close>: the first of the elements whose key is least.\<close>

fun min_by_key :: "('a \<Rightarrow> 'k::linorder) \<Rightarrow> 'a list \<Rightarrow> 'a option" where
  "min_by_key f [] = None"
| "min_by_key f (x # xs) =
     (case min_by_key f xs of None \<Rightarrow> Some x
      | Some y \<Rightarrow> if f x \<le> f y then Some x else Some y)"

lemma min_by_key_None [simp]: "min_by_key f xs = None \<longleftrightarrow> xs = []"
  by (cases xs) (auto split: option.splits)

lemma min_by_key_in: "min_by_key f xs = Some x \<Longrightarrow> x \<in> set xs"
  by (induction xs arbitrary: x) (auto split: option.splits if_splits)

lemma min_by_key_le: "min_by_key f xs = Some x \<Longrightarrow> y \<in> set xs \<Longrightarrow> f x \<le> f y"
proof (induction xs arbitrary: x y)
  case Nil
  then show ?case by simp
next
  case (Cons a xs)
  then show ?case
    by (cases "min_by_key f xs") (fastforce split: if_splits)+
qed

text \<open>\<open>sort_by_key\<close> is stable, so its head is the element \<open>min_by_key\<close> picks.\<close>

lemma min_by_key_eq_hd_insort:
  "xs \<noteq> [] \<Longrightarrow> hd (insort_key f a xs) = (if f a \<le> f (hd xs) then a else hd xs)"
  by (cases xs) auto

lemma min_by_key_eq_hd_sort:
  "min_by_key f xs = (if xs = [] then None else Some (hd (sort_key f xs)))"
proof (induction xs)
  case Nil
  then show ?case by simp
next
  case (Cons a xs)
  have "sort_key f xs = [] \<longleftrightarrow> xs = []"
    by (metis length_0_conv length_sort)
  with Cons show ?case
    by (cases "xs = []") (auto simp: min_by_key_eq_hd_insort)
qed

text \<open>\<open>str::split\<close> on one character: always at least one piece.\<close>

fun split_on :: "char \<Rightarrow> string \<Rightarrow> string list" where
  "split_on c [] = [[]]"
| "split_on c (x # xs) =
     (if x = c then [] # split_on c xs
      else (case split_on c xs of [] \<Rightarrow> [[x]] | p # ps \<Rightarrow> (x # p) # ps))"

lemma split_on_nonempty [simp]: "split_on c s \<noteq> []"
  by (induction s) (auto split: list.splits)

text \<open>\<open>char::is_whitespace\<close> on ASCII and \<open>str::trim\<close>.\<close>

definition is_whitespace :: "char \<Rightarrow> bool" where
  "is_whitespace c \<longleftrightarrow> c = CHR '' '' \<or> (9 \<le> (of_char c :: nat) \<and> (of_char c :: nat) \<le> 13)"

definition trim :: "string \<Rightarrow> string" where
  "trim s = rev (dropWhile is_whitespace (rev (dropWhile is_whitespace s)))"

lemma hd_dropWhile_not: "dropWhile P xs = y # ys \<Longrightarrow> \<not> P y"
  by (induction xs) (auto split: if_splits)

lemma dropWhile_rev_hd:
  assumes "rev (dropWhile P (rev xs)) = y # ys" shows "\<exists>zs. xs = y # zs"
proof -
  have "xs = rev (dropWhile P (rev xs)) @ rev (takeWhile P (rev xs))"
    by (metis rev_append rev_rev_ident takeWhile_dropWhile_id)
  with assms show ?thesis by (metis append_Cons)
qed

text \<open>A trimmed string neither starts nor ends with white space.\<close>

lemma trim_no_leading: "trim s = c # s' \<Longrightarrow> \<not> is_whitespace c"
  unfolding trim_def using dropWhile_rev_hd hd_dropWhile_not by fastforce

lemma trim_no_trailing: "trim s = s' @ [c] \<Longrightarrow> \<not> is_whitespace c"
  unfolding trim_def by (metis hd_dropWhile_not rev_eq_append_conv rev.simps(1) append_Nil rev_singleton_conv append_Cons)

section \<open>Association lists\<close>

declare update_conv' [alist_simps] delete_conv' [alist_simps]

abbreviation distinct_keys :: "('k \<times> 'v) list \<Rightarrow> bool" where
  "distinct_keys al \<equiv> distinct (map fst al)"

text \<open>Inserting the entries of a list one after the other: the last one for a key wins.\<close>

definition insert_all :: "('a \<Rightarrow> 'k) \<Rightarrow> ('a \<Rightarrow> 'v) \<Rightarrow> 'a list \<Rightarrow> ('k \<times> 'v) list \<Rightarrow> ('k \<times> 'v) list" where
  "insert_all k v xs al = fold (\<lambda>x al. AList.update (k x) (v x) al) xs al"

lemma insert_all_simps [simp]:
  "insert_all k v [] al = al"
  "insert_all k v (x # xs) al = insert_all k v xs (AList.update (k x) (v x) al)"
  by (simp_all add: insert_all_def)

lemma insert_all_snoc [simp]:
  "insert_all k v (xs @ [x]) al = AList.update (k x) (v x) (insert_all k v xs al)"
  by (simp add: insert_all_def)

lemma distinct_insert_all: "distinct_keys al \<Longrightarrow> distinct_keys (insert_all k v xs al)"
  by (induction xs arbitrary: al) (simp_all add: distinct_update)

lemma map_of_insert_all [alist_simps]:
  "map_of (insert_all k v xs al) = map_of al ++ map_of (map (\<lambda>x. (k x, v x)) (rev xs))"
  by (induction xs arbitrary: al)
    (auto simp: update_conv' fun_eq_iff map_add_def split: option.splits)

lemma dom_insert_all: "dom (map_of (insert_all k v xs al)) = dom (map_of al) \<union> k ` set xs"
  by (auto simp: map_of_insert_all dom_map_of_conv_image_fst image_image)

lemma length_update: "length (AList.update k v al) = (if k \<in> fst ` set al then length al else Suc (length al))"
  by (induction al) auto

lemma map_of_None_iff: "map_of al k = None \<longleftrightarrow> k \<notin> fst ` set al"
  by (rule map_of_eq_None_iff)

lemma length_insert_all: "length (insert_all k v xs al) \<le> length al + length xs"
proof (induction xs arbitrary: al)
  case (Cons x xs)
  have "length (insert_all k v xs (AList.update (k x) (v x) al))
      \<le> length (AList.update (k x) (v x) al) + length xs" by (rule Cons.IH)
  also have "\<dots> \<le> Suc (length al) + length xs" by (simp add: length_update)
  finally show ?case by simp
qed simp

section \<open>Reachability and invariants\<close>

inductive reach :: "('s \<Rightarrow> bool) \<Rightarrow> ('s \<Rightarrow> 's \<Rightarrow> bool) \<Rightarrow> 's \<Rightarrow> bool" for init step where
  start: "init s \<Longrightarrow> reach init step s"
| step: "reach init step s \<Longrightarrow> step s t \<Longrightarrow> reach init step t"

text \<open>
  The contract of a concurrent component: an invariant that every initial state satisfies and
  every atomic step keeps. Each component of the proxy that runs interleaved with others
  (supervisors, pooled channels, the dedup cache) interprets it on its own step relation.
\<close>

locale step_invariant =
  fixes init :: "'s \<Rightarrow> bool" and step :: "'s \<Rightarrow> 's \<Rightarrow> bool" and inv :: "'s \<Rightarrow> bool"
  assumes inv_init: "init s \<Longrightarrow> inv s"
    and inv_step: "inv s \<Longrightarrow> step s t \<Longrightarrow> inv t"
begin

lemma inv_reach: "reach init step s \<Longrightarrow> inv s"
  by (induction rule: reach.induct) (auto intro: inv_init inv_step)

lemma inv_steps: "step\<^sup>*\<^sup>* s t \<Longrightarrow> inv s \<Longrightarrow> inv t"
  by (induction rule: rtranclp_induct) (auto intro: inv_step)

end

end
