(* ===== verification/Config.thy ===== *)
theory Config
  imports Prelude
begin

text \<open>
  The configuration (\<open>src/src/config.rs\<close>): the twelve configuration structs as records, the
  \<open>default_*\<close> functions and \<open>Default\<close> impls, \<open>Config::load\<close>/\<open>save\<close>/\<open>validate\<close> and the lookup
  helpers. TOML parsing and printing (the \<open>toml\<close> crate with the derived serde code) are the
  arguments \<open>from_str\<close> and \<open>to_string_pretty\<close>; the file system is a map from paths to contents.
  Machine arithmetic is that of a release build: sums wrap.
\<close>

section \<open>Configuration structs\<close>

record general_config =
  gc_rpc_bind :: string
  gc_ws_bind :: string
  gc_grpc_bind :: string
  gc_arpc_bind :: string
  gc_dashboard_bind :: string
  gc_dashboard_user :: string
  gc_dashboard_pass :: string
  gc_data_dir :: string
  gc_log_level :: string

record node_config =
  nc_id :: string
  nc_label :: string
  nc_region :: string
  nc_priority :: u32
  nc_rpc_url :: string
  nc_ws_url :: string
  nc_grpc_url :: string
  nc_arpc_url :: string
  nc_grpc_x_token :: string
  nc_iris_url :: "string option"
  nc_rpc_pool_max_idle :: usize
  nc_rpc_pool_idle_timeout_secs :: u64

record health_config =
  hc_check_interval_secs :: u64
  hc_unhealthy_threshold :: u32
  hc_healthy_threshold :: u32
  hc_timeout_ms :: u64

record routing_config =
  rc_send_tx_targets :: string
  rc_grpc_regions :: "string list"

record grpc_config =
  gr_connection_window_bytes :: u32
  gr_stream_window_bytes :: u32
  gr_adaptive_window :: bool
  gr_concurrency_limit :: usize
  gr_broadcast_capacity :: usize
  gr_client_channel_capacity :: usize
  gr_max_lag_events :: u64
  gr_replay_on_reconnect :: bool
  gr_keepalive_interval_secs :: u64
  gr_keepalive_timeout_secs :: u64
  gr_multi_region_enabled :: bool
  gr_dedup_window_secs :: u64
  gr_dedup_eviction_interval_secs :: u64
  gr_tcp_keepalive_secs :: u64
  gr_tcp_user_timeout_secs :: u64
  gr_keep_alive_while_idle :: bool

record rate_limit_config =
  rl_global_rps :: u32
  rl_global_tps :: u32
  rl_default_rps :: u32
  rl_default_tps :: u32
  rl_default_burst_rps :: u32
  rl_default_burst_tps :: u32

record cpu_config =
  cpu_cores :: "usize list"
  cpu_worker_threads :: "usize option"

record firewall_config =
  fw_enabled :: bool
  fw_backend :: string
  fw_chain_name :: string

record whitelist_entry =
  we_ip :: ip_addr
  we_label :: string
  we_rps :: "u32 option"
  we_tps :: "u32 option"
  we_burst_rps :: "u32 option"
  we_burst_tps :: "u32 option"

record api_key_entry =
  ak_key :: string
  ak_label :: string
  ak_rps :: "u32 option"
  ak_tps :: "u32 option"
  ak_burst_rps :: "u32 option"
  ak_burst_tps :: "u32 option"
  ak_created_at :: string
  ak_revoked :: bool

record legacy_upstream_config =
  lu_rpc_url :: string
  lu_ws_url :: string
  lu_grpc_url :: string
  lu_arpc_url :: string
  lu_grpc_x_token :: string
  lu_rpc_pool_max_idle :: usize
  lu_rpc_pool_idle_timeout_secs :: u64

record config =
  cfg_general :: general_config
  cfg_nodes :: "node_config list"
  cfg_rate_limits :: rate_limit_config
  cfg_cpu :: cpu_config
  cfg_firewall :: firewall_config
  cfg_health :: health_config
  cfg_grpc :: grpc_config
  cfg_routing :: routing_config
  cfg_whitelist :: "whitelist_entry list"
  cfg_api_keys :: "api_key_entry list"
  cfg_upstream :: "legacy_upstream_config option"

section \<open>Defaults\<close>

definition default_rpc_bind :: string where
  "default_rpc_bind = ''0.0.0.0:8899''"
definition default_ws_bind :: string where
  "default_ws_bind = ''0.0.0.0:8900''"
definition default_grpc_bind :: string where
  "default_grpc_bind = ''0.0.0.0:10101''"
definition default_arpc_bind :: string where
  "default_arpc_bind = ''0.0.0.0:20202''"
definition default_dashboard_bind :: string where
  "default_dashboard_bind = ''127.0.0.1:9000''"
definition default_dashboard_user :: string where
  "default_dashboard_user = ''admin''"
definition default_dashboard_pass :: string where
  "default_dashboard_pass = ''admin''"
definition default_data_dir :: string where
  "default_data_dir = ''/var/lib/solana-rpc-cluster''"
definition default_log_level :: string where
  "default_log_level = ''info''"
definition default_pool_max_idle :: usize where
  "default_pool_max_idle = 32"
definition default_pool_idle_timeout :: u64 where
  "default_pool_idle_timeout = 60"
definition default_priority :: u32 where
  "default_priority = 10"
definition default_global_rps :: u32 where
  "default_global_rps = 1250"
definition default_global_tps :: u32 where
  "default_global_tps = 250"
definition default_per_ip_rps :: u32 where
  "default_per_ip_rps = 200"
definition default_per_ip_tps :: u32 where
  "default_per_ip_tps = 50"
definition default_burst_rps :: u32 where
  "default_burst_rps = 20"
definition default_burst_tps :: u32 where
  "default_burst_tps = 5"
definition default_fw_backend :: string where
  "default_fw_backend = ''nftables''"
definition default_chain_name :: string where
  "default_chain_name = ''solana-rpc-cluster''"
definition default_check_interval :: u64 where
  "default_check_interval = 5"
definition default_unhealthy_threshold :: u32 where
  "default_unhealthy_threshold = 3"
definition default_healthy_threshold :: u32 where
  "default_healthy_threshold = 2"
definition default_timeout_ms :: u64 where
  "default_timeout_ms = 3000"
definition default_send_tx_targets :: string where
  "default_send_tx_targets = ''all''"
definition default_grpc_conn_window :: u32 where
  "default_grpc_conn_window = 16 * 1024 * 1024"
definition default_grpc_stream_window :: u32 where
  "default_grpc_stream_window = 4 * 1024 * 1024"
definition default_grpc_adaptive_window :: bool where
  "default_grpc_adaptive_window = True"
definition default_grpc_concurrency_limit :: usize where
  "default_grpc_concurrency_limit = 256"
definition default_grpc_broadcast_capacity :: usize where
  "default_grpc_broadcast_capacity = 65536"
definition default_grpc_client_channel_capacity :: usize where
  "default_grpc_client_channel_capacity = 4096"
definition default_grpc_max_lag_events :: u64 where
  "default_grpc_max_lag_events = 1"
definition default_grpc_replay_on_reconnect :: bool where
  "default_grpc_replay_on_reconnect = True"
definition default_grpc_keepalive_interval :: u64 where
  "default_grpc_keepalive_interval = 20"
definition default_grpc_keepalive_timeout :: u64 where
  "default_grpc_keepalive_timeout = 10"
definition default_grpc_multi_region_enabled :: bool where
  "default_grpc_multi_region_enabled = True"
definition default_grpc_dedup_window_secs :: u64 where
  "default_grpc_dedup_window_secs = 60"
definition default_grpc_dedup_eviction_interval_secs :: u64 where
  "default_grpc_dedup_eviction_interval_secs = 5"
definition default_grpc_tcp_keepalive :: u64 where
  "default_grpc_tcp_keepalive = 60"
definition default_grpc_tcp_user_timeout :: u64 where
  "default_grpc_tcp_user_timeout = 20"

lemmas default_defs =
  default_rpc_bind_def default_ws_bind_def default_grpc_bind_def
  default_arpc_bind_def default_dashboard_bind_def default_dashboard_user_def
  default_dashboard_pass_def default_data_dir_def default_log_level_def
  default_pool_max_idle_def default_pool_idle_timeout_def default_priority_def
  default_global_rps_def default_global_tps_def default_per_ip_rps_def
  default_per_ip_tps_def default_burst_rps_def default_burst_tps_def
  default_fw_backend_def default_chain_name_def default_check_interval_def
  default_unhealthy_threshold_def default_healthy_threshold_def default_timeout_ms_def
  default_send_tx_targets_def default_grpc_conn_window_def default_grpc_stream_window_def
  default_grpc_adaptive_window_def default_grpc_concurrency_limit_def default_grpc_broadcast_capacity_def
  default_grpc_client_channel_capacity_def default_grpc_max_lag_events_def default_grpc_replay_on_reconnect_def
  default_grpc_keepalive_interval_def default_grpc_keepalive_timeout_def default_grpc_multi_region_enabled_def
  default_grpc_dedup_window_secs_def default_grpc_dedup_eviction_interval_secs_def default_grpc_tcp_keepalive_def
  default_grpc_tcp_user_timeout_def

definition default_health_config :: health_config where
  "default_health_config =
    \<lparr>hc_check_interval_secs = default_check_interval,
     hc_unhealthy_threshold = default_unhealthy_threshold,
     hc_healthy_threshold = default_healthy_threshold,
     hc_timeout_ms = default_timeout_ms\<rparr>"

definition default_routing_config :: routing_config where
  "default_routing_config =
    \<lparr>rc_send_tx_targets = default_send_tx_targets, rc_grpc_regions = []\<rparr>"

definition default_grpc_config :: grpc_config where
  "default_grpc_config =
    \<lparr>gr_connection_window_bytes = default_grpc_conn_window,
     gr_stream_window_bytes = default_grpc_stream_window,
     gr_adaptive_window = default_grpc_adaptive_window,
     gr_concurrency_limit = default_grpc_concurrency_limit,
     gr_broadcast_capacity = default_grpc_broadcast_capacity,
     gr_client_channel_capacity = default_grpc_client_channel_capacity,
     gr_max_lag_events = default_grpc_max_lag_events,
     gr_replay_on_reconnect = default_grpc_replay_on_reconnect,
     gr_keepalive_interval_secs = default_grpc_keepalive_interval,
     gr_keepalive_timeout_secs = default_grpc_keepalive_timeout,
     gr_multi_region_enabled = default_grpc_multi_region_enabled,
     gr_dedup_window_secs = default_grpc_dedup_window_secs,
     gr_dedup_eviction_interval_secs = default_grpc_dedup_eviction_interval_secs,
     gr_tcp_keepalive_secs = default_grpc_tcp_keepalive,
     gr_tcp_user_timeout_secs = default_grpc_tcp_user_timeout,
     gr_keep_alive_while_idle = False\<rparr>"

section \<open>Files\<close>

type_synonym fs = "string \<rightharpoonup> string"

text \<open>
  \<open>Path::with_extension\<close> on a path whose last component is a file name: the extension of the
  last component is replaced; a component with no dot, or whose only dot is leading, has none.
\<close>

definition file_stem :: "string \<Rightarrow> string" where
  "file_stem name =
    (let after = takeWhile (\<lambda>c. c \<noteq> CHR ''.'') (rev name);
         before = take (length name - Suc (length after)) name
     in if length after = length name \<or> before = [] then name else before)"

definition with_extension :: "string \<Rightarrow> string \<Rightarrow> string" where
  "with_extension p ext =
    (let name = rev (takeWhile (\<lambda>c. c \<noteq> CHR ''/'') (rev p));
         dir = take (length p - length name) p
     in if name = [] \<or> name = ''..'' then p else dir @ file_stem name @ ''.'' @ ext)"

text \<open>
  \<open>std::fs::write\<close> to the temporary file either succeeds or fails leaving whatever was written so
  far (\<open>None\<close>: the file was not touched); \<open>std::fs::rename\<close> succeeds or fails without effect.
\<close>

datatype write_outcome = Written | WriteFailed "string option"

definition write_then_rename ::
    "write_outcome \<Rightarrow> bool \<Rightarrow> string \<Rightarrow> string \<Rightarrow> string \<Rightarrow> fs \<Rightarrow> bool \<times> fs" where
  "write_then_rename wr rename_ok tmp path content fs =
    (case wr of
       WriteFailed None \<Rightarrow> (False, fs)
     | WriteFailed (Some partial) \<Rightarrow> (False, fs(tmp \<mapsto> partial))
     | Written \<Rightarrow>
         let fs' = fs(tmp \<mapsto> content)
         in if rename_ok then (True, (fs'(tmp := None))(path := fs' tmp)) else (False, fs'))"

section \<open>Config operations\<close>

datatype config_error =
    IoError
  | ParseError string
  | SerializeError string
  | NoNodes

definition validate :: "config \<Rightarrow> config_error + (bool \<times> bool)" where
  "validate c =
    (if cfg_nodes c = [] then Inl NoNodes
     else
       let total_rps = sum_list (map (\<lambda>w. case we_rps w of Some r \<Rightarrow> r
                         | None \<Rightarrow> rl_default_rps (cfg_rate_limits c)) (cfg_whitelist c));
           total_tps = sum_list (map (\<lambda>w. case we_tps w of Some t \<Rightarrow> t
                         | None \<Rightarrow> rl_default_tps (cfg_rate_limits c)) (cfg_whitelist c))
       in Inr (total_rps > rl_global_rps (cfg_rate_limits c),
               total_tps > rl_global_tps (cfg_rate_limits c)))"

definition legacy_node :: "legacy_upstream_config \<Rightarrow> node_config" where
  "legacy_node u =
    \<lparr>nc_id = ''primary'', nc_label = ''Primary'', nc_region = ''default'', nc_priority = 1,
     nc_rpc_url = lu_rpc_url u, nc_ws_url = lu_ws_url u, nc_grpc_url = lu_grpc_url u,
     nc_arpc_url = lu_arpc_url u, nc_grpc_x_token = lu_grpc_x_token u, nc_iris_url = None,
     nc_rpc_pool_max_idle = lu_rpc_pool_max_idle u,
     nc_rpc_pool_idle_timeout_secs = lu_rpc_pool_idle_timeout_secs u\<rparr>"

definition load :: "(string \<Rightarrow> string + config) \<Rightarrow> fs \<Rightarrow> string \<Rightarrow> config_error + config" where
  "load from_str fs path =
    (case fs path of
       None \<Rightarrow> Inl IoError
     | Some content \<Rightarrow>
        (case from_str content of
           Inl e \<Rightarrow> Inl (ParseError e)
         | Inr config \<Rightarrow>
             let config =
                   (if cfg_nodes config = []
                    then (case cfg_upstream config of
                            Some upstream \<Rightarrow> config\<lparr>cfg_upstream := None,
                               cfg_nodes := cfg_nodes config @ [legacy_node upstream]\<rparr>
                          | None \<Rightarrow> config)
                    else config);
                 config = config\<lparr>cfg_upstream := None\<rparr>
             in (case validate config of Inl e \<Rightarrow> Inl e | Inr _ \<Rightarrow> Inr config)))"

definition save ::
    "(config \<Rightarrow> string + string) \<Rightarrow> write_outcome \<Rightarrow> bool \<Rightarrow> fs \<Rightarrow> string \<Rightarrow> config
     \<Rightarrow> (config_error + unit) \<times> fs" where
  "save to_string_pretty wr rename_ok fs path c =
    (case to_string_pretty c of
       Inl e \<Rightarrow> (Inl (SerializeError e), fs)
     | Inr toml_string \<Rightarrow>
         let tmp = with_extension path ''toml.tmp''
         in (case write_then_rename wr rename_ok tmp path toml_string fs of
               (ok, fs') \<Rightarrow> (if ok then Inr () else Inl IoError, fs')))"

definition whitelist_set :: "config \<Rightarrow> ip_addr set" where
  "whitelist_set c = set (map we_ip (cfg_whitelist c))"

definition get_ip_rps :: "config \<Rightarrow> ip_addr \<Rightarrow> u32" where
  "get_ip_rps c ip =
    (case Option.bind (find (\<lambda>w. we_ip w = ip) (cfg_whitelist c)) we_rps of
       Some v \<Rightarrow> v | None \<Rightarrow> rl_default_rps (cfg_rate_limits c))"

definition get_ip_tps :: "config \<Rightarrow> ip_addr \<Rightarrow> u32" where
  "get_ip_tps c ip =
    (case Option.bind (find (\<lambda>w. we_ip w = ip) (cfg_whitelist c)) we_tps of
       Some v \<Rightarrow> v | None \<Rightarrow> rl_default_tps (cfg_rate_limits c))"

definition get_ip_burst_rps :: "config \<Rightarrow> ip_addr \<Rightarrow> u32" where
  "get_ip_burst_rps c ip =
    (case Option.bind (find (\<lambda>w. we_ip w = ip) (cfg_whitelist c)) we_burst_rps of
       Some v \<Rightarrow> v | None \<Rightarrow> rl_default_burst_rps (cfg_rate_limits c))"

definition get_ip_burst_tps :: "config \<Rightarrow> ip_addr \<Rightarrow> u32" where
  "get_ip_burst_tps c ip =
    (case Option.bind (find (\<lambda>w. we_ip w = ip) (cfg_whitelist c)) we_burst_tps of
       Some v \<Rightarrow> v | None \<Rightarrow> rl_default_burst_tps (cfg_rate_limits c))"

definition get_send_tx_node_ids :: "config \<Rightarrow> string list" where
  "get_send_tx_node_ids c =
    (if rc_send_tx_targets (cfg_routing c) = ''all'' then map nc_id (cfg_nodes c)
     else filter (\<lambda>s. s \<noteq> []) (map trim (split_on CHR '','' (rc_send_tx_targets (cfg_routing c)))))"

definition get_grpc_eligible_node_ids :: "config \<Rightarrow> string list" where
  "get_grpc_eligible_node_ids c =
    (if rc_grpc_regions (cfg_routing c) = [] then map nc_id (cfg_nodes c)
     else rc_grpc_regions (cfg_routing c))"

section \<open>Lemmas\<close>

lemma last_dot_split:
  "name = before @ CHR ''.'' # after \<Longrightarrow> CHR ''.'' \<notin> set after \<Longrightarrow> before \<noteq> [] \<Longrightarrow> file_stem name = before"
  by (simp add: file_stem_def Let_def takeWhile_append)

lemma file_stem_changes: "name \<noteq> file_stem name @ ''.toml.tmp''"
proof
  assume eq: "name = file_stem name @ ''.toml.tmp''"
  show False
  proof (cases "file_stem name = name")
    case True
    with eq show False by (metis append_self_conv list.distinct(1))
  next
    case False
    then have ne: "file_stem name \<noteq> []"
      unfolding file_stem_def Let_def by (auto split: if_splits)
    have "name = (file_stem name @ ''.toml'') @ CHR ''.'' # ''tmp''" using eq by simp
    then have "file_stem name = file_stem name @ ''.toml''" by (rule last_dot_split) simp_all
    then show False by simp
  qed
qed

text \<open>The temporary file is never the file that is replaced.\<close>

lemma tmp_path_differs:
  assumes "rev (takeWhile (\<lambda>c. c \<noteq> CHR ''/'') (rev p)) \<notin> {[], ''..''}"
  shows "with_extension p ''toml.tmp'' \<noteq> p"
proof -
  define name where "name = rev (takeWhile (\<lambda>c. c \<noteq> CHR ''/'') (rev p))"
  have "p = rev (dropWhile (\<lambda>c. c \<noteq> CHR ''/'') (rev p)) @ name"
    unfolding name_def by (metis rev_append rev_rev_ident takeWhile_dropWhile_id)
  then obtain dir where p: "p = dir @ name" by blast
  have w: "with_extension p ''toml.tmp'' = dir @ file_stem name @ ''.toml.tmp''"
    using assms unfolding with_extension_def Let_def name_def [symmetric] by (simp add: p)
  show ?thesis unfolding w unfolding p using file_stem_changes [of name] by (metis same_append_eq)
qed

lemma load_ok:
  assumes "load from_str fs path = Inr c"
  shows "cfg_nodes c \<noteq> [] \<and> cfg_upstream c = None"
  using assms unfolding load_def validate_def
  by (auto simp: Let_def split: option.splits sum.splits if_splits)

lemma load_noop:
  assumes "fs path = Some s" "from_str s = Inr c" "cfg_nodes c \<noteq> []" "cfg_upstream c = None"
  shows "load from_str fs path = Inr c"
  using assms by (simp add: load_def validate_def Let_def)

text \<open>What the code relies on of the \<open>toml\<close> crate with the derived serde code: a printed configuration
  parses back to itself.\<close>

definition toml_roundtrip :: "(config \<Rightarrow> string + string) \<Rightarrow> (string \<Rightarrow> string + config) \<Rightarrow> bool" where
  "toml_roundtrip to_string_pretty from_str \<longleftrightarrow> (\<forall>c s. to_string_pretty c = Inr s \<longrightarrow> from_str s = Inr c)"

lemma write_then_rename_atomic:
  assumes "write_then_rename wr rename_ok tmp path content fs = (ok, fs')" "tmp \<noteq> path"
  shows "fs' path = (if ok then Some content else fs path) \<and> (\<forall>p. p \<notin> {path, tmp} \<longrightarrow> fs' p = fs p)"
  using assms by (auto simp: write_then_rename_def Let_def split: write_outcome.splits option.splits if_splits)

section \<open>Properties\<close>

text \<open>Property C40. Saving is atomic and loses nothing: whatever happens to the write and the rename, the configuration
  file afterwards is either untouched (and the save reported an error) or complete, other files than
  the temporary one are left alone, and after a reported success a configuration that was loaded
  from a file loads back unchanged.\<close>

theorem config_save_atomic:
  assumes "rev (takeWhile (\<lambda>c. c \<noteq> CHR ''/'') (rev path)) \<notin> {[], ''..''}"
    and "toml_roundtrip to_string_pretty from_str"
    and "save to_string_pretty wr rename_ok fs path c = (res, fs')"
  shows "(case res of
      Inl e \<Rightarrow> fs' path = fs path
    | Inr _ \<Rightarrow> (\<exists>s. to_string_pretty c = Inr s \<and> fs' path = Some s)
        \<and> (load from_str fs0 path0 = Inr c \<longrightarrow> load from_str fs' path = Inr c))
    \<and> (\<forall>p. p \<notin> {path, with_extension path ''toml.tmp''} \<longrightarrow> fs' p = fs p)"
proof (cases "to_string_pretty c")
  case (Inl e)
  then show ?thesis using assms(3) by (auto simp: save_def)
next
  case (Inr s)
  let ?tmp = "with_extension path ''toml.tmp''"
  obtain ok where w: "write_then_rename wr rename_ok ?tmp path s fs = (ok, fs')" "res = (if ok then Inr () else Inl IoError)"
    using assms(3) Inr by (auto simp: save_def Let_def split: prod.splits)
  note atomic = write_then_rename_atomic [OF w(1) tmp_path_differs [OF assms(1)]]
  have "from_str s = Inr c" using assms(2) Inr by (simp add: toml_roundtrip_def)
  then have "load from_str fs' path = Inr c" if "ok" "load from_str fs0 path0 = Inr c"
    using load_noop atomic that load_ok [OF that(2)] by simp
  with atomic w(2) Inr show ?thesis by auto
qed

definition example_config :: config where
  "example_config =
    \<lparr>cfg_general = \<lparr>gc_rpc_bind = default_rpc_bind, gc_ws_bind = default_ws_bind,
       gc_grpc_bind = default_grpc_bind, gc_arpc_bind = default_arpc_bind,
       gc_dashboard_bind = default_dashboard_bind, gc_dashboard_user = default_dashboard_user,
       gc_dashboard_pass = default_dashboard_pass, gc_data_dir = default_data_dir,
       gc_log_level = default_log_level\<rparr>,
     cfg_nodes = [legacy_node \<lparr>lu_rpc_url = ''r'', lu_ws_url = ''w'', lu_grpc_url = ''g'',
       lu_arpc_url = ''a'', lu_grpc_x_token = [], lu_rpc_pool_max_idle = default_pool_max_idle,
       lu_rpc_pool_idle_timeout_secs = default_pool_idle_timeout\<rparr>],
     cfg_rate_limits = \<lparr>rl_global_rps = default_global_rps, rl_global_tps = default_global_tps,
       rl_default_rps = 2, rl_default_tps = 1, rl_default_burst_rps = 1, rl_default_burst_tps = 0\<rparr>,
     cfg_cpu = \<lparr>cpu_cores = [], cpu_worker_threads = None\<rparr>,
     cfg_firewall = \<lparr>fw_enabled = False, fw_backend = default_fw_backend, fw_chain_name = default_chain_name\<rparr>,
     cfg_health = default_health_config, cfg_grpc = default_grpc_config,
     cfg_routing = default_routing_config,
     cfg_whitelist = [\<lparr>we_ip = V4 1, we_label = [], we_rps = Some 5, we_tps = None,
       we_burst_rps = None, we_burst_tps = None\<rparr>],
     cfg_api_keys = [\<lparr>ak_key = ''sk_1'', ak_label = [], ak_rps = None, ak_tps = None,
       ak_burst_rps = None, ak_burst_tps = None, ak_created_at = [], ak_revoked = False\<rparr>],
     cfg_upstream = None\<rparr>"

text \<open>A printer and a parser for that one configuration.\<close>

definition sample_to_toml :: "config \<Rightarrow> string + string" where
  "sample_to_toml c = (if c = example_config then Inr ''sample'' else Inl ''unsupported'')"

definition sample_from_toml :: "string \<Rightarrow> string + config" where
  "sample_from_toml s = (if s = ''sample'' then Inr example_config else Inl ''unsupported'')"

lemma sample_load: "fs path = Some ''sample'' \<Longrightarrow> load sample_from_toml fs path = Inr example_config"
  by (rule load_noop) (simp_all add: sample_from_toml_def example_config_def)

theorem config_save_atomic_witness:
  "load sample_from_toml (snd (save sample_to_toml Written True Map.empty ''/etc/c.toml'' example_config)) ''/etc/c.toml''
     = Inr example_config"
proof -
  have path: "rev (takeWhile (\<lambda>c. c \<noteq> CHR ''/'') (rev ''/etc/c.toml'')) \<notin> {[], ''..''}" by simp
  have rt: "toml_roundtrip sample_to_toml sample_from_toml"
    by (simp add: toml_roundtrip_def sample_to_toml_def sample_from_toml_def)
  obtain fs' where sv: "save sample_to_toml Written True Map.empty ''/etc/c.toml'' example_config = (Inr (), fs')"
    by (simp add: save_def sample_to_toml_def write_then_rename_def Let_def)
  from config_save_atomic [OF path rt sv, of "[''a'' \<mapsto> ''sample'']" "''a''"] sv show ?thesis
    by (simp add: sample_load)
qed

end
