(* ===== verification/Health.thy ===== *)
theory Health
  imports Complex_Main Config
begin

text \<open>
  Node health (\<open>src/src/cluster/health.rs\<close> and the node table of \<open>src/src/cluster/mod.rs\<close>): the
  atomics of \<open>NodeHealth\<close> as a record of words, the classification of one \<open>getSlot\<close> probe, the
  per-node body of the health loop and the slot-drift pass that closes each tick. The network
  (the probes' raw answers) and the clock are inputs of a tick; JSON values are a datatype.
\<close>

section \<open>State\<close>

datatype node_status = Healthy | Degraded | Down

fun status_as_u8 :: "node_status \<Rightarrow> u8" where
  "status_as_u8 Healthy = 0"
| "status_as_u8 Degraded = 1"
| "status_as_u8 Down = 2"

definition from_u8 :: "u8 \<Rightarrow> node_status" where
  "from_u8 v = (if v = 0 then Healthy else if v = 1 then Degraded else Down)"

fun as_str :: "node_status \<Rightarrow> string" where
  "as_str Healthy = ''healthy''"
| "as_str Degraded = ''degraded''"
| "as_str Down = ''down''"

text \<open>Statuses are ordered by severity.\<close>

instantiation node_status :: linorder
begin

definition less_eq_node_status :: "node_status \<Rightarrow> node_status \<Rightarrow> bool" where
  "less_eq_node_status a b \<longleftrightarrow> unat (status_as_u8 a) \<le> unat (status_as_u8 b)"

definition less_node_status :: "node_status \<Rightarrow> node_status \<Rightarrow> bool" where
  "less_node_status a b \<longleftrightarrow> unat (status_as_u8 a) < unat (status_as_u8 b)"

instance
proof
  fix x y z :: node_status
  show "x < y \<longleftrightarrow> x \<le> y \<and> \<not> y \<le> x"
    by (auto simp: less_eq_node_status_def less_node_status_def)
  show "x \<le> x" by (simp add: less_eq_node_status_def)
  show "x \<le> y \<Longrightarrow> y \<le> z \<Longrightarrow> x \<le> z" by (simp add: less_eq_node_status_def)
  show "x \<le> y \<Longrightarrow> y \<le> x \<Longrightarrow> x = y"
    by (cases x; cases y) (simp_all add: less_eq_node_status_def)
  show "x \<le> y \<or> y \<le> x" by (auto simp: less_eq_node_status_def)
qed

end

record node_health =
  nh_node_id :: string
  nh_status :: u8
  nh_latency_ms :: u64
  nh_last_slot :: u64
  nh_last_seen_ms :: u64
  nh_consecutive_failures :: u32
  nh_consecutive_successes :: u32
  nh_total_checks :: u64
  nh_total_successes :: u64
  nh_iris_healthy :: bool
  nh_grpc_healthy :: bool
  nh_rpc_blocked :: bool
  nh_wins :: u64
  nh_dupes :: u64
  nh_last_msg_ms :: u64

definition new_health :: "string \<Rightarrow> node_health" where
  "new_health nid =
    \<lparr>nh_node_id = nid, nh_status = status_as_u8 Healthy, nh_latency_ms = 0, nh_last_slot = 0,
     nh_last_seen_ms = 0, nh_consecutive_failures = 0, nh_consecutive_successes = 0,
     nh_total_checks = 0, nh_total_successes = 0, nh_iris_healthy = False,
     nh_grpc_healthy = True, nh_rpc_blocked = False, nh_wins = 0, nh_dupes = 0,
     nh_last_msg_ms = 0\<rparr>"

definition get_status :: "node_health \<Rightarrow> node_status" where
  "get_status h = from_u8 (nh_status h)"

definition is_healthy :: "node_health \<Rightarrow> bool" where
  "is_healthy h \<longleftrightarrow> get_status h \<noteq> Down"

text \<open>\<open>uptime_pct\<close> is an \<open>f64\<close>; the model computes the exact quotient the float approximates.\<close>

definition uptime_pct :: "node_health \<Rightarrow> rat" where
  "uptime_pct h =
    (if nh_total_checks h = 0 then 100
     else (of_nat (unat (nh_total_successes h)) / of_nat (unat (nh_total_checks h))) * 100)"

definition record_success :: "u64 \<Rightarrow> u64 \<Rightarrow> u64 \<Rightarrow> node_health \<Rightarrow> node_health" where
  "record_success now_ms latency_ms slot h =
    h\<lparr>nh_latency_ms := latency_ms, nh_last_slot := slot, nh_last_seen_ms := now_ms,
      nh_consecutive_failures := 0,
      nh_consecutive_successes := nh_consecutive_successes h + 1,
      nh_total_checks := nh_total_checks h + 1,
      nh_total_successes := nh_total_successes h + 1\<rparr>"

definition record_failure :: "node_health \<Rightarrow> node_health" where
  "record_failure h =
    h\<lparr>nh_consecutive_successes := 0,
      nh_consecutive_failures := nh_consecutive_failures h + 1,
      nh_total_checks := nh_total_checks h + 1\<rparr>"

text \<open>An entry of the node table; the HTTP client it also holds is code outside this program.\<close>

record node_entry =
  ne_config :: node_config
  ne_health :: node_health

section \<open>Probes\<close>

datatype json =
    JNull
  | JBool bool
  | JPosInt u64
  | JNegInt int
  | JFloat rat
  | JString string
  | JArray "json list"
  | JObject "(string \<times> json) list"

text \<open>\<open>Value::index\<close> with a string key (missing keys and non-objects give \<open>Null\<close>), \<open>as_u64\<close>, \<open>as_i64\<close>.\<close>

fun json_index :: "json \<Rightarrow> string \<Rightarrow> json" where
  "json_index (JObject kvs) k = (case map_of kvs k of Some v \<Rightarrow> v | None \<Rightarrow> JNull)"
| "json_index _ k = JNull"

fun as_u64 :: "json \<Rightarrow> u64 option" where
  "as_u64 (JPosInt n) = Some n"
| "as_u64 _ = None"

fun as_i64 :: "json \<Rightarrow> int option" where
  "as_i64 (JPosInt n) = (if uint n < 2 ^ 63 then Some (uint n) else None)"
| "as_i64 (JNegInt i) = Some i"
| "as_i64 _ = None"

datatype rpc_outcome = OHealthy u64 u64 | OBlocked | OFailed

text \<open>What the HTTP stack gives back for one \<open>getSlot\<close> probe, stage by stage.\<close>

datatype probe_reply =
    UriInvalid
  | RequestInvalid
  | RequestFailed
  | BodyFailed
  | Body u64 "json option" \<comment> \<open>elapsed ms, and the body if it parses as JSON\<close>

fun check_node_rpc :: "probe_reply \<Rightarrow> rpc_outcome" where
  "check_node_rpc UriInvalid = OFailed"
| "check_node_rpc RequestInvalid = OFailed"
| "check_node_rpc RequestFailed = OFailed"
| "check_node_rpc BodyFailed = OFailed"
| "check_node_rpc (Body latency_ms None) = OFailed"
| "check_node_rpc (Body latency_ms (Some json)) =
     (case as_u64 (json_index json ''result'') of
        Some slot \<Rightarrow> OHealthy latency_ms slot
      | None \<Rightarrow>
          if as_i64 (json_index (json_index json ''error'') ''code'') = Some (- 32002)
          then OBlocked else OFailed)"

text \<open>The Iris probe succeeds on any 2xx status.\<close>

datatype iris_reply = IrisUriInvalid | IrisRequestInvalid | IrisRequestFailed | IrisStatus u16

fun check_iris_health :: "iris_reply \<Rightarrow> string + bool" where
  "check_iris_health IrisUriInvalid = Inl ''invalid uri''"
| "check_iris_health IrisRequestInvalid = Inl ''invalid request''"
| "check_iris_health IrisRequestFailed = Inl ''request failed''"
| "check_iris_health (IrisStatus st) = Inr (200 \<le> st \<and> st < 300)"

text \<open>The gRPC probe: connect and ping, with the token as metadata if it is a legal value. How far the
  node lets the probe get depends on the token it sees.\<close>

datatype ping_reply = PingUrlInvalid | PingConnectFailed | PingRefused | PingAnswered

definition check_grpc_health :: "bool \<Rightarrow> (string option \<Rightarrow> ping_reply) \<Rightarrow> string \<Rightarrow> string + unit" where
  "check_grpc_health token_legal node x_token =
    (case node (if x_token \<noteq> [] \<and> token_legal then Some x_token else None) of
       PingUrlInvalid \<Rightarrow> Inl ''invalid url''
     | PingConnectFailed \<Rightarrow> Inl ''connect failed''
     | PingRefused \<Rightarrow> Inl ''ping failed''
     | PingAnswered \<Rightarrow> Inr ())"

section \<open>One tick of the health loop\<close>

text \<open>
  The inputs of one node's checks in one tick: \<open>None\<close> is an elapsed timeout. \<open>pb_seen_ms\<close> and
  \<open>pb_now_ms\<close> are the clock readings of \<open>record_success\<close> and of the stream-age test.
\<close>

record probe =
  pb_rpc :: "probe_reply option"
  pb_seen_ms :: u64
  pb_iris :: "iris_reply option"
  pb_token_legal :: bool
  pb_ping :: "(string option \<Rightarrow> ping_reply) option"
  pb_now_ms :: u64

definition probe_outcome :: "probe \<Rightarrow> rpc_outcome" where
  "probe_outcome p = (case pb_rpc p of None \<Rightarrow> OFailed | Some r \<Rightarrow> check_node_rpc r)"

definition set_status :: "node_status \<Rightarrow> node_health \<Rightarrow> node_health" where
  "set_status s h = h\<lparr>nh_status := status_as_u8 s\<rparr>"

definition fail_node :: "health_config \<Rightarrow> bool \<Rightarrow> node_health \<Rightarrow> node_health" where
  "fail_node c blocked h =
    (let h = record_failure (h\<lparr>nh_rpc_blocked := blocked\<rparr>);
         failures = nh_consecutive_failures h
     in if failures \<ge> hc_unhealthy_threshold c then set_status Down h else h)"

fun apply_outcome :: "health_config \<Rightarrow> u64 \<Rightarrow> rpc_outcome \<Rightarrow> node_health \<Rightarrow> node_health" where
  "apply_outcome c now_ms (OHealthy latency_ms slot) h =
    (let h = record_success now_ms latency_ms slot (h\<lparr>nh_rpc_blocked := False\<rparr>);
         successes = nh_consecutive_successes h;
         h = (if get_status h = Down \<and> successes \<ge> hc_healthy_threshold c then set_status Healthy h
              else if get_status h \<noteq> Healthy \<and> successes \<ge> hc_healthy_threshold c
              then set_status Healthy h else h)
     in if latency_ms > 500 \<and> get_status h = Healthy then set_status Degraded h else h)"
| "apply_outcome c now_ms OBlocked h = fail_node c True h"
| "apply_outcome c now_ms OFailed h = fail_node c False h"

fun outcome_slot :: "rpc_outcome \<Rightarrow> u64 \<Rightarrow> u64" where
  "outcome_slot (OHealthy l slot) max_slot = (if slot > max_slot then slot else max_slot)"
| "outcome_slot _ max_slot = max_slot"

definition check_iris :: "node_config \<Rightarrow> probe \<Rightarrow> node_health \<Rightarrow> node_health" where
  "check_iris nc p h =
    (case nc_iris_url nc of
       None \<Rightarrow> h
     | Some _ \<Rightarrow> h\<lparr>nh_iris_healthy :=
         (case map_option check_iris_health (pb_iris p) of Some (Inr ok) \<Rightarrow> ok | _ \<Rightarrow> False)\<rparr>)"

definition check_grpc :: "node_config \<Rightarrow> probe \<Rightarrow> node_health \<Rightarrow> node_health" where
  "check_grpc nc p h =
    (if nc_grpc_url nc = [] then h
     else
       let ping_ok = (case map_option (\<lambda>node. check_grpc_health (pb_token_legal p) node (nc_grpc_x_token nc)) (pb_ping p) of
                        Some (Inr _) \<Rightarrow> True | _ \<Rightarrow> False);
           last_msg_ms = nh_last_msg_ms h;
           stream_ok = (if last_msg_ms > 0 then saturating_sub (pb_now_ms p) last_msg_ms < 30000
                        else False)
       in h\<lparr>nh_grpc_healthy := (ping_ok \<or> stream_ok)\<rparr>)"

definition check_node :: "health_config \<Rightarrow> node_entry \<Rightarrow> probe \<Rightarrow> node_entry" where
  "check_node c n p =
    n\<lparr>ne_health :=
      check_grpc (ne_config n) p
       (check_iris (ne_config n) p
         (apply_outcome c (pb_seen_ms p) (probe_outcome p) (ne_health n)))\<rparr>"

fun check_nodes :: "health_config \<Rightarrow> (node_entry \<times> probe) list \<Rightarrow> u64 \<Rightarrow> node_entry list \<times> u64" where
  "check_nodes c [] max_slot = ([], max_slot)"
| "check_nodes c ((n, p) # rest) max_slot =
    (case check_nodes c rest (outcome_slot (probe_outcome p) max_slot) of
       (ns, m) \<Rightarrow> (check_node c n p # ns, m))"

text \<open>Slot drift: \<open>node_slot + 5\<close> wraps, as the release build's addition does.\<close>

definition drift :: "u64 \<Rightarrow> node_health \<Rightarrow> node_health" where
  "drift max_slot h =
    (if nh_last_slot h > 0 \<and> max_slot > nh_last_slot h + 5 \<and> get_status h = Healthy
     then set_status Degraded h else h)"

definition drift_entry :: "u64 \<Rightarrow> node_entry \<Rightarrow> node_entry" where
  "drift_entry max_slot n = n\<lparr>ne_health := drift max_slot (ne_health n)\<rparr>"

definition health_tick :: "health_config \<Rightarrow> (node_entry \<times> probe) list \<Rightarrow> node_entry list" where
  "health_tick c nps =
    (case check_nodes c nps 0 of
       (ns, max_slot) \<Rightarrow> if max_slot > 0 then map (drift_entry max_slot) ns else ns)"

text \<open>The pause between two ticks, in seconds.\<close>

definition health_interval_secs :: "health_config \<Rightarrow> u64" where
  "health_interval_secs c = max (hc_check_interval_secs c) 1"

section \<open>Lemmas\<close>

lemma from_u8_as_u8 [simp]: "from_u8 (status_as_u8 s) = s"
  by (cases s) (simp_all add: from_u8_def)

lemma get_status_set_status [simp]: "get_status (set_status s h) = s"
  by (simp add: get_status_def set_status_def)

lemma get_status_cong: "nh_status h = nh_status h' \<Longrightarrow> get_status h = get_status h'"
  by (simp add: get_status_def)

lemma set_status_frame [frame_simps]:
  "nh_consecutive_failures (set_status s h) = nh_consecutive_failures h"
  "nh_consecutive_successes (set_status s h) = nh_consecutive_successes h"
  "nh_total_checks (set_status s h) = nh_total_checks h"
  "nh_total_successes (set_status s h) = nh_total_successes h"
  "nh_last_slot (set_status s h) = nh_last_slot h"
  "nh_last_msg_ms (set_status s h) = nh_last_msg_ms h"
  by (simp_all add: set_status_def)

lemma record_frame [frame_simps]:
  "nh_status (record_failure h) = nh_status h"
  "nh_status (record_success t l sl h) = nh_status h"
  "nh_consecutive_failures (record_failure h) = nh_consecutive_failures h + 1"
  "nh_consecutive_successes (record_failure h) = 0"
  "nh_consecutive_failures (record_success t l sl h) = 0"
  "nh_consecutive_successes (record_success t l sl h) = nh_consecutive_successes h + 1"
  "nh_total_checks (record_failure h) = nh_total_checks h + 1"
  "nh_total_checks (record_success t l sl h) = nh_total_checks h + 1"
  "nh_total_successes (record_failure h) = nh_total_successes h"
  "nh_total_successes (record_success t l sl h) = nh_total_successes h + 1"
  "nh_last_slot (record_success t l sl h) = sl"
  by (simp_all add: record_failure_def record_success_def)

lemma get_status_record [frame_simps]:
  "get_status (record_failure h) = get_status h"
  "get_status (record_success t l sl h) = get_status h"
  "get_status (h\<lparr>nh_rpc_blocked := b\<rparr>) = get_status h"
  by (simp_all add: get_status_def frame_simps)

lemma side_checks_frame [frame_simps]:
  "nh_status (check_grpc nc p h) = nh_status h"
  "nh_consecutive_failures (check_grpc nc p h) = nh_consecutive_failures h"
  "nh_consecutive_successes (check_grpc nc p h) = nh_consecutive_successes h"
  "nh_total_checks (check_grpc nc p h) = nh_total_checks h"
  "nh_total_successes (check_grpc nc p h) = nh_total_successes h"
  "nh_status (check_iris nc p h) = nh_status h"
  "nh_consecutive_failures (check_iris nc p h) = nh_consecutive_failures h"
  "nh_consecutive_successes (check_iris nc p h) = nh_consecutive_successes h"
  "nh_total_checks (check_iris nc p h) = nh_total_checks h"
  "nh_total_successes (check_iris nc p h) = nh_total_successes h"
  "get_status (check_grpc nc p h) = get_status h"
  "get_status (check_iris nc p h) = get_status h"
  by (simp_all add: check_grpc_def check_iris_def Let_def get_status_def split: option.splits)

lemma drift_frame [frame_simps]:
  "nh_consecutive_failures (drift m h) = nh_consecutive_failures h"
  "nh_consecutive_successes (drift m h) = nh_consecutive_successes h"
  "nh_total_checks (drift m h) = nh_total_checks h"
  "nh_total_successes (drift m h) = nh_total_successes h"
  by (simp_all add: drift_def frame_simps)

lemma drift_down [simp]: "get_status (drift m h) = Down \<longleftrightarrow> get_status h = Down"
  by (auto simp: drift_def)

lemma drift_0 [simp]: "drift 0 h = h"
  by (simp add: drift_def)

text \<open>What the two further probes decide: the Iris flag follows the last 2xx answer, and gRPC is healthy
  if the ping was answered or the shared stream had data in the last thirty seconds.\<close>

lemma apply_outcome_last_msg [simp]: "nh_last_msg_ms (apply_outcome c now_ms out h) = nh_last_msg_ms h"
  by (cases out) (simp_all add: record_success_def record_failure_def fail_node_def set_status_def Let_def)

lemma iris_ok_iff: "check_iris_health r = Inr True \<longleftrightarrow> (\<exists>st. r = IrisStatus st \<and> 200 \<le> st \<and> st < 300)"
  by (cases r) simp_all

lemma ping_ok_iff:
  "check_grpc_health legal node tok = Inr u \<longleftrightarrow> node (if tok \<noteq> [] \<and> legal then Some tok else None) = PingAnswered"
  by (simp add: check_grpc_health_def split: ping_reply.splits)

lemma check_iris_flag:
  assumes "nc_iris_url nc \<noteq> None"
  shows "nh_iris_healthy (check_iris nc p h) \<longleftrightarrow> (\<exists>st. pb_iris p = Some (IrisStatus st) \<and> 200 \<le> st \<and> st < 300)"
proof -
  have "nh_iris_healthy (check_iris nc p h) \<longleftrightarrow> (\<exists>r. pb_iris p = Some r \<and> check_iris_health r = Inr True)"
    using assms by (auto simp: check_iris_def split: option.splits sum.splits)
  then show ?thesis by (auto simp: iris_ok_iff)
qed

lemma check_grpc_flag:
  assumes "nc_grpc_url nc \<noteq> []"
  shows "nh_grpc_healthy (check_grpc nc p h) \<longleftrightarrow>
      (\<exists>node. pb_ping p = Some node
         \<and> node (if nc_grpc_x_token nc \<noteq> [] \<and> pb_token_legal p then Some (nc_grpc_x_token nc) else None) = PingAnswered)
    \<or> 0 < unat (nh_last_msg_ms h) \<and> unat (pb_now_ms p) - unat (nh_last_msg_ms h) < 30000"
proof -
  have age: "saturating_sub a b < 30000 \<longleftrightarrow> unat a - unat b < 30000" for a b
    by (simp add: word_less_nat_alt unat_saturating_sub)
  have "nh_grpc_healthy (check_grpc nc p h) \<longleftrightarrow>
      (\<exists>node. pb_ping p = Some node \<and> check_grpc_health (pb_token_legal p) node (nc_grpc_x_token nc) = Inr ())
    \<or> 0 < nh_last_msg_ms h \<and> saturating_sub (pb_now_ms p) (nh_last_msg_ms h) < 30000"
    using assms by (auto simp: check_grpc_def Let_def split: option.splits sum.splits)
  then show ?thesis unfolding ping_ok_iff age by (simp add: word_less_nat_alt)
qed

text \<open>A failing probe and the drift pass never improve a node's status.\<close>

lemma status_le_bounds [simp]: "Healthy \<le> s" "s \<le> Down"
  by (cases s; simp add: less_eq_node_status_def)+

lemma fail_node_severity: "get_status h \<le> get_status (fail_node c b h)"
  by (simp add: fail_node_def Let_def frame_simps)

lemma drift_severity: "get_status h \<le> get_status (drift m h)"
  by (simp add: drift_def)

text \<open>One tick acts on each node on its own, once the tick's highest slot is known.\<close>

definition tick_node :: "health_config \<Rightarrow> u64 \<Rightarrow> node_entry \<Rightarrow> probe \<Rightarrow> node_entry" where
  "tick_node c m n p = drift_entry m (check_node c n p)"

lemma check_nodes_fst: "fst (check_nodes c nps m) = map (\<lambda>(n, p). check_node c n p) nps"
  by (induction nps arbitrary: m) (auto simp: case_prod_beta)

lemma health_tick_map:
  "\<exists>m. health_tick c nps = map (\<lambda>(n, p). tick_node c m n p) nps"
proof -
  have "drift_entry 0 n = n" for n by (simp add: drift_entry_def)
  then show ?thesis
    using check_nodes_fst [of c nps 0]
    by (auto simp: health_tick_def tick_node_def case_prod_beta comp_def word_gt_0
        intro: exI [of _ "snd (check_nodes c nps 0)"])
qed

lemma length_health_tick [simp]: "length (health_tick c nps) = length nps"
  using health_tick_map [of c nps] by auto

lemma health_tick_nth:
  "i < length nps \<Longrightarrow> \<exists>m. health_tick c nps ! i = tick_node c m (fst (nps ! i)) (snd (nps ! i))"
  using health_tick_map [of c nps] by (auto simp: case_prod_beta)

text \<open>A run of the loop: one list of probes per tick.\<close>

fun health_run :: "health_config \<Rightarrow> node_entry list \<Rightarrow> probe list list \<Rightarrow> node_entry list" where
  "health_run c ns [] = ns"
| "health_run c ns (ps # pss) = health_run c (health_tick c (zip ns ps)) pss"

definition failing :: "probe \<Rightarrow> bool" where
  "failing p \<longleftrightarrow> (case probe_outcome p of OHealthy _ _ \<Rightarrow> False | _ \<Rightarrow> True)"

lemma tick_failing:
  assumes "failing p"
  shows "nh_consecutive_failures (ne_health (tick_node c m n p)) = nh_consecutive_failures (ne_health n) + 1"
    and "nh_consecutive_failures (ne_health n) + 1 \<ge> hc_unhealthy_threshold c
         \<Longrightarrow> get_status (ne_health (tick_node c m n p)) = Down"
  using assms
  by (auto simp: failing_def tick_node_def drift_entry_def check_node_def fail_node_def Let_def
      frame_simps split: rpc_outcome.splits)

lemma tick_succeeding:
  assumes "\<not> failing p"
  shows "nh_consecutive_successes (ne_health (tick_node c m n p)) = nh_consecutive_successes (ne_health n) + 1"
    and "nh_consecutive_successes (ne_health n) + 1 \<ge> hc_healthy_threshold c
         \<Longrightarrow> get_status (ne_health (tick_node c m n p)) \<noteq> Down"
  using assms
  by (auto simp: failing_def tick_node_def drift_entry_def check_node_def Let_def
      frame_simps split: rpc_outcome.splits if_splits)


lemma length_health_run:
  "\<forall>ps \<in> set pss. length ps = length ns \<Longrightarrow> length (health_run c ns pss) = length ns"
  by (induction pss arbitrary: ns) auto

lemma health_run_snoc: "health_run c ns (pss @ [ps]) = health_tick c (zip (health_run c ns pss) ps)"
  by (induction pss arbitrary: ns) auto

lemma health_run_last_tick:
  assumes "i < length ns" "\<forall>ps \<in> set (pss @ [ps]). length ps = length ns"
  shows "\<exists>m. health_run c ns (pss @ [ps]) ! i = tick_node c m (health_run c ns pss ! i) (ps ! i)"
proof -
  have "length (health_run c ns pss) = length ns" using assms(2) by (intro length_health_run) auto
  with assms show ?thesis
    using health_tick_nth [of i "zip (health_run c ns pss) ps" c] by (simp add: health_run_snoc)
qed

lemma health_run_failures:
  assumes "i < length ns" "\<forall>ps \<in> set pss. length ps = length ns \<and> failing (ps ! i)"
  shows "nh_consecutive_failures (ne_health (health_run c ns pss ! i))
       = nh_consecutive_failures (ne_health (ns ! i)) + of_nat (length pss)"
  using assms
proof (induction pss rule: rev_induct)
  case (snoc ps pss)
  obtain m where "health_run c ns (pss @ [ps]) ! i = tick_node c m (health_run c ns pss ! i) (ps ! i)"
    using health_run_last_tick [of i ns pss ps c] snoc.prems by auto
  with snoc show ?case by (simp add: tick_failing)
qed simp

lemma health_run_successes:
  assumes "i < length ns" "\<forall>ps \<in> set pss. length ps = length ns \<and> \<not> failing (ps ! i)"
  shows "nh_consecutive_successes (ne_health (health_run c ns pss ! i))
       = nh_consecutive_successes (ne_health (ns ! i)) + of_nat (length pss)"
  using assms
proof (induction pss rule: rev_induct)
  case (snoc ps pss)
  obtain m where "health_run c ns (pss @ [ps]) ! i = tick_node c m (health_run c ns pss ! i) (ps ! i)"
    using health_run_last_tick [of i ns pss ps c] snoc.prems by auto
  with snoc show ?case by (simp add: tick_succeeding)
qed simp

lemma counter_reaches:
  fixes f thr :: "32 word"
  assumes "unat f + Suc k < 2 ^ 32" "unat thr \<le> Suc k"
  shows "thr \<le> f + of_nat k + 1"
proof -
  have "unat (f + of_nat k + 1) = unat f + Suc k"
    using assms(1) by (simp add: unat_word_ariths unat_of_nat)
  with assms(2) show ?thesis by (simp add: word_le_nat_alt)
qed

lemma outcome_slot_ge: "m \<le> outcome_slot out m"
  by (cases out) auto

lemma check_nodes_max_ge: "m \<le> snd (check_nodes c nps m)"
proof (induction nps arbitrary: m)
  case (Cons np nps)
  show ?case using Cons.IH [of "outcome_slot (probe_outcome (snd np)) m"]
      outcome_slot_ge [of m "probe_outcome (snd np)"]
    by (cases np) (auto simp: case_prod_beta)
qed simp

lemma check_nodes_max:
  "(n, p) \<in> set nps \<Longrightarrow> probe_outcome p = OHealthy l sl \<Longrightarrow> sl \<le> snd (check_nodes c nps m)"
proof (induction nps arbitrary: m)
  case (Cons np nps)
  then show ?case
    using check_nodes_max_ge [of "outcome_slot (OHealthy l sl) m" c nps]
    by (cases np) (auto simp: case_prod_beta split: if_splits)
qed simp

lemma health_tick_exact:
  "health_tick c nps = map (\<lambda>(n, p). tick_node c (snd (check_nodes c nps 0)) n p) nps"
proof -
  have "drift_entry 0 n = n" for n by (simp add: drift_entry_def)
  then show ?thesis
    using check_nodes_fst [of c nps 0]
    by (auto simp: health_tick_def tick_node_def case_prod_beta comp_def word_gt_0)
qed

section \<open>Properties\<close>

text \<open>Property C13. Ejection: once a node's probe has failed (timeout, transport error, unexpected
  or unauthorised reply) in at least \<open>unhealthy_threshold\<close> consecutive ticks, it is no longer
  routable, whatever the other nodes answer and whatever its earlier state was, as long as the
  32-bit failure counter has not wrapped.\<close>

theorem unhealthy_node_ejected:
  assumes "i < length ns"
    and "\<forall>ps \<in> set pss. length ps = length ns \<and> failing (ps ! i)"
    and "pss \<noteq> []" and "unat (hc_unhealthy_threshold c) \<le> length pss"
    and "unat (nh_consecutive_failures (ne_health (ns ! i))) + length pss < 2 ^ 32"
  shows "\<not> is_healthy (ne_health (health_run c ns pss ! i))"
proof -
  obtain qss ps where p: "pss = qss @ [ps]" using assms(3) by (metis rev_exhaust)
  obtain m where m: "health_run c ns pss ! i = tick_node c m (health_run c ns qss ! i) (ps ! i)"
    using health_run_last_tick [of i ns qss ps c] assms(1,2) p by auto
  have "nh_consecutive_failures (ne_health (health_run c ns qss ! i))
      = nh_consecutive_failures (ne_health (ns ! i)) + of_nat (length qss)"
    using assms(1,2) p by (intro health_run_failures) auto
  with assms p have "hc_unhealthy_threshold c
      \<le> nh_consecutive_failures (ne_health (health_run c ns qss ! i)) + 1"
    by (simp add: counter_reaches)
  with assms(2) p show ?thesis unfolding is_healthy_def m by (simp add: tick_failing)
qed

definition example_node :: "string \<Rightarrow> u32 \<Rightarrow> node_entry" where
  "example_node nid prio =
    \<lparr>ne_config = \<lparr>nc_id = nid, nc_label = [], nc_region = [], nc_priority = prio,
       nc_rpc_url = nid @ ''/rpc'', nc_ws_url = nid @ ''/ws'', nc_grpc_url = nid @ ''/grpc'',
       nc_arpc_url = nid @ ''/arpc'', nc_grpc_x_token = [], nc_iris_url = None,
       nc_rpc_pool_max_idle = 32, nc_rpc_pool_idle_timeout_secs = 60\<rparr>,
     ne_health = new_health nid\<rparr>"

definition example_timeout :: probe where
  "example_timeout = \<lparr>pb_rpc = None, pb_seen_ms = 0, pb_iris = None, pb_token_legal = True, pb_ping = None, pb_now_ms = 0\<rparr>"

definition example_reply :: "u64 \<Rightarrow> probe" where
  "example_reply sl = \<lparr>pb_rpc = Some (Body 20 (Some (JObject [(''result'', JPosInt sl)]))),
     pb_seen_ms = 1000, pb_iris = None, pb_token_legal = True, pb_ping = Some (\<lambda>_. PingAnswered), pb_now_ms = 1000\<rparr>"

lemmas example_probe_defs = example_node_def example_timeout_def example_reply_def new_health_def

lemma example_failing [simp]: "failing example_timeout" "\<not> failing (example_reply sl)"
  by (simp_all add: failing_def probe_outcome_def example_probe_defs)

theorem unhealthy_node_ejected_witness:
  "\<not> is_healthy (ne_health (health_run default_health_config [example_node ''a'' 1]
       (replicate 3 [example_timeout]) ! 0))"
  by (rule unhealthy_node_ejected)
    (simp_all add: default_health_config_def default_defs example_node_def new_health_def)

text \<open>Property C14. Restore: once a node has answered \<open>getSlot\<close> in at least \<open>healthy_threshold\<close> many
  consecutive ticks it is routable again (Healthy or Degraded), from any earlier state.\<close>

theorem answering_node_restored:
  assumes "i < length ns"
    and "\<forall>ps \<in> set pss. length ps = length ns \<and> \<not> failing (ps ! i)"
    and "pss \<noteq> []" and "unat (hc_healthy_threshold c) \<le> length pss"
    and "unat (nh_consecutive_successes (ne_health (ns ! i))) + length pss < 2 ^ 32"
  shows "is_healthy (ne_health (health_run c ns pss ! i))"
proof -
  obtain qss ps where p: "pss = qss @ [ps]" using assms(3) by (metis rev_exhaust)
  obtain m where m: "health_run c ns pss ! i = tick_node c m (health_run c ns qss ! i) (ps ! i)"
    using health_run_last_tick [of i ns qss ps c] assms(1,2) p by auto
  have "nh_consecutive_successes (ne_health (health_run c ns qss ! i))
      = nh_consecutive_successes (ne_health (ns ! i)) + of_nat (length qss)"
    using assms(1,2) p by (intro health_run_successes) auto
  with assms p have "hc_healthy_threshold c
      \<le> nh_consecutive_successes (ne_health (health_run c ns qss ! i)) + 1"
    by (simp add: counter_reaches)
  with assms(2) p show ?thesis unfolding is_healthy_def m by (simp add: tick_succeeding)
qed

theorem answering_node_restored_witness:
  "is_healthy (ne_health (health_run default_health_config
       [(example_node ''a'' 1)\<lparr>ne_health := set_status Down (new_health ''a'')\<rparr>]
       (replicate 2 [example_reply 7]) ! 0))"
  by (rule answering_node_restored)
    (simp_all add: default_health_config_def default_defs example_node_def new_health_def set_status_def)

text \<open>Property C15. No premature ejection: a tick takes a routable node out of rotation only when
  its own probe failed and that failure brought its consecutive-failure count to
  \<open>unhealthy_threshold\<close>; slow answers, slot drift, iris and gRPC checks never do.\<close>

theorem no_premature_ejection:
  assumes "i < length nps" and "is_healthy (ne_health (fst (nps ! i)))"
    and "\<not> is_healthy (ne_health (health_tick c nps ! i))"
  shows "failing (snd (nps ! i))
       \<and> nh_consecutive_failures (ne_health (health_tick c nps ! i)) \<ge> hc_unhealthy_threshold c"
proof -
  obtain m where m: "health_tick c nps ! i = tick_node c m (fst (nps ! i)) (snd (nps ! i))"
    using health_tick_nth [OF assms(1)] by blast
  show ?thesis using assms(2,3) unfolding m
    by (cases "probe_outcome (snd (nps ! i))")
      (auto simp: failing_def is_healthy_def tick_node_def drift_entry_def check_node_def
        fail_node_def Let_def frame_simps split: if_splits)
qed

theorem no_premature_ejection_witness:
  "let c = default_health_config\<lparr>hc_unhealthy_threshold := 1\<rparr>;
       nps = [(example_node ''a'' 1, example_timeout)]
   in failing (snd (nps ! 0))
    \<and> nh_consecutive_failures (ne_health (health_tick c nps ! 0)) \<ge> hc_unhealthy_threshold c"
  unfolding Let_def
  by (rule no_premature_ejection)
    (simp_all add: is_healthy_def health_tick_exact tick_node_def drift_entry_def check_node_def
      example_probe_defs probe_outcome_def fail_node_def Let_def record_failure_def set_status_def
      check_iris_def check_grpc_def get_status_def drift_def from_u8_def
      default_health_config_def default_defs)

text \<open>Slot drift: of two nodes that both answer in one tick, one that is more than
  five slots behind the other is not reported Healthy after the tick.\<close>

theorem lagging_node_not_healthy:
  assumes "i < length nps" "j < length nps"
    and "probe_outcome (snd (nps ! i)) = OHealthy li si"
    and "probe_outcome (snd (nps ! j)) = OHealthy lj sj"
    and "0 < si" and "unat si + 5 < unat sj"
  shows "get_status (ne_health (health_tick c nps ! i)) \<noteq> Healthy"
proof -
  define m where "m = snd (check_nodes c nps 0)"
  have "(fst (nps ! j), snd (nps ! j)) \<in> set nps" using assms(2) by simp
  then have "sj \<le> m" unfolding m_def using assms(4) by (rule check_nodes_max)
  moreover have "unat (si + 5) = unat si + 5"
    using assms(6) unsigned_less [of sj, where 'a = nat] by (simp add: unat_word_ariths)
  ultimately have lag: "si + 5 < m"
    using assms(6) by (simp add: word_less_nat_alt word_le_nat_alt)
  define h where "h = ne_health (check_node c (fst (nps ! i)) (snd (nps ! i)))"
  have "nh_last_slot h = si"
    using assms(3) by (simp add: h_def check_node_def Let_def frame_simps check_grpc_def check_iris_def
        split: option.splits)
  with lag assms(5) have "get_status (drift m h) \<noteq> Healthy" by (auto simp: drift_def)
  then show ?thesis
    using assms(1) by (simp add: health_tick_exact case_prod_beta tick_node_def drift_entry_def
        m_def h_def)
qed

theorem lagging_node_not_healthy_witness:
  "get_status (ne_health (health_tick default_health_config
     [(example_node ''a'' 1, example_reply 100), (example_node ''b'' 2, example_reply 106)] ! 0)) \<noteq> Healthy"
  by (rule lagging_node_not_healthy [where j = 1 and li = 20 and lj = 20 and si = 100 and sj = 106])
    (simp_all add: probe_outcome_def example_reply_def)

definition health_ok :: "node_health \<Rightarrow> bool" where
  "health_ok h \<longleftrightarrow>
     (nh_consecutive_failures h = 0 \<or> nh_consecutive_successes h = 0)
   \<and> nh_total_successes h \<le> nh_total_checks h
   \<and> nh_status h \<le> 2"

lemma uptime_pct_range:
  assumes "nh_total_successes h \<le> nh_total_checks h"
  shows "0 \<le> uptime_pct h \<and> uptime_pct h \<le> 100"
proof -
  have "unat (nh_total_successes h) \<le> unat (nh_total_checks h)"
    using assms by (simp add: word_le_nat_alt)
  moreover have "0 \<le> (of_nat a / of_nat b :: rat) * 100 \<and> (of_nat a / of_nat b :: rat) * 100 \<le> 100"
    if "a \<le> b" for a b
    using that by (cases "b = 0") (simp_all add: divide_le_eq)
  ultimately have "0 \<le> (of_nat (unat (nh_total_successes h)) / of_nat (unat (nh_total_checks h)) :: rat) * 100
    \<and> (of_nat (unat (nh_total_successes h)) / of_nat (unat (nh_total_checks h)) :: rat) * 100 \<le> 100"
    by blast
  then show ?thesis by (simp add: uptime_pct_def)
qed

lemma status_u8_le [simp]: "status_as_u8 st \<le> 2"
  by (cases st) (simp_all add: word_le_nat_alt)

lemma set_status_u8_le [simp]: "nh_status (set_status st h) \<le> 2"
  by (simp add: set_status_def)

text \<open>Bookkeeping: every tick keeps, for every node, that a node never has both a
  failure run and a success run, that its successes never exceed its checks, and hence that the
  reported uptime is a percentage (counters below their wrap-around).\<close>

theorem health_tick_bookkeeping:
  assumes "i < length nps" and "health_ok (ne_health (fst (nps ! i)))"
    and "nh_total_checks (ne_health (fst (nps ! i))) < - 1"
  shows "health_ok (ne_health (health_tick c nps ! i))
       \<and> 0 \<le> uptime_pct (ne_health (health_tick c nps ! i))
       \<and> uptime_pct (ne_health (health_tick c nps ! i)) \<le> 100"
proof -
  define n p where "n = fst (nps ! i)" and "p = snd (nps ! i)"
  obtain m where m: "health_tick c nps ! i = tick_node c m n p"
    using health_tick_nth [OF assms(1)] unfolding n_def p_def by blast
  have inc: "nh_total_successes (ne_health n) \<le> nh_total_checks (ne_health n) + 1"
      "nh_total_successes (ne_health n) + 1 \<le> nh_total_checks (ne_health n) + 1"
    using assms(2,3) unfolding n_def [symmetric] health_ok_def by unat_arith+
  have "health_ok (ne_health (tick_node c m n p))"
    using assms(2) inc unfolding n_def [symmetric]
    by (cases "probe_outcome p")
      (auto simp: health_ok_def tick_node_def drift_entry_def check_node_def fail_node_def
        drift_def Let_def frame_simps)
  then show ?thesis unfolding m using uptime_pct_range health_ok_def by blast
qed

theorem health_tick_bookkeeping_witness:
  "let nps = [(example_node ''a'' 1, example_reply 9)]; h = ne_health (health_tick default_health_config nps ! 0)
   in health_ok h \<and> 0 \<le> uptime_pct h \<and> uptime_pct h \<le> 100"
  unfolding Let_def
  by (rule health_tick_bookkeeping)
    (simp_all add: health_ok_def example_probe_defs word_gt_0)

end
