(* ===== verification/Router.thy ===== *)
theory Router
  imports Health
begin

text \<open>
  Request routing (\<open>src/src/cluster/router.rs\<close>): node selection for reads, WebSocket and gRPC, the
  transaction fan-out, the round-robin path for heavy reads and the priority-ordered path for
  ordinary reads. The HTTP client is an argument; every routing function returns its result
  together with the nodes it contacted, in order.
\<close>

section \<open>State and the HTTP client\<close>

record router =
  rt_nodes :: "node_entry list"
  rt_send_tx_node_ids :: "string list"
  rt_grpc_node_ids :: "string list"
  rt_heavy_rpc_counter :: usize

definition new_router :: "node_entry list \<Rightarrow> string list \<Rightarrow> string list \<Rightarrow> router" where
  "new_router nodes send_tx grpc =
    \<lparr>rt_nodes = nodes, rt_send_tx_node_ids = send_tx, rt_grpc_node_ids = grpc,
     rt_heavy_rpc_counter = 0\<rparr>"

datatype body = Raw bytes | Json json \<comment> \<open>bytes from upstream, or a value rendered by serde_json\<close>

record response =
  rs_status :: u16
  rs_headers :: "(string \<times> string) list"
  rs_body :: body

text \<open>What hyper's client can answer, stage by stage; the timeout covers the request only.\<close>

datatype client_reply =
    BuildError string
  | TimedOut
  | RequestError string
  | BodyReadError string
  | Reply u16 bytes

record http_client =
  cl_parse_uri :: "string \<Rightarrow> string + string"
  cl_request :: "node_config \<Rightarrow> string \<Rightarrow> bytes \<Rightarrow> client_reply"

definition json_headers :: "(string \<times> string) list" where
  "json_headers = [(''content-type'', ''application/json''), (''access-control-allow-origin'', ''*'')]"

definition forward_rpc_to :: "http_client \<Rightarrow> node_entry \<Rightarrow> string \<Rightarrow> bytes \<Rightarrow> string + response" where
  "forward_rpc_to cl n url body =
    (case cl_parse_uri cl url of
       Inl e \<Rightarrow> Inl (''Invalid URL: '' @ e)
     | Inr uri \<Rightarrow>
        (case cl_request cl (ne_config n) uri body of
           BuildError e \<Rightarrow> Inl (''Request build error: '' @ e)
         | TimedOut \<Rightarrow> Inl (''Upstream '' @ nc_id (ne_config n) @ '' timeout after 8s'')
         | RequestError e \<Rightarrow> Inl (''Upstream '' @ nc_id (ne_config n) @ '' error: '' @ e)
         | BodyReadError e \<Rightarrow> Inl (''Body read error: '' @ e)
         | Reply status resp_body \<Rightarrow>
             Inr \<lparr>rs_status = status, rs_headers = json_headers, rs_body = Raw resp_body\<rparr>))"

section \<open>Node selection\<close>

abbreviation node_healthy :: "node_entry \<Rightarrow> bool" where
  "node_healthy n \<equiv> is_healthy (ne_health n)"

abbreviation node_priority :: "node_entry \<Rightarrow> nat" where
  "node_priority n \<equiv> unat (nc_priority (ne_config n))"

definition pick_read_node :: "router \<Rightarrow> node_entry option" where
  "pick_read_node r = min_by_key node_priority (filter node_healthy (rt_nodes r))"

definition pick_ws_node :: "router \<Rightarrow> node_entry option" where
  "pick_ws_node r = pick_read_node r"

definition pick_grpc_node :: "router \<Rightarrow> node_entry option" where
  "pick_grpc_node r =
    min_by_key node_priority
      (filter (\<lambda>n. nh_grpc_healthy (ne_health n))
        (filter node_healthy
          (filter (\<lambda>n. nc_id (ne_config n) \<in> set (rt_grpc_node_ids r)) (rt_nodes r))))"

definition get_grpc_eligible_nodes :: "router \<Rightarrow> node_entry list" where
  "get_grpc_eligible_nodes r =
    filter (\<lambda>n. nc_id (ne_config n) \<in> set (rt_grpc_node_ids r)) (rt_nodes r)"

section \<open>Fan-out\<close>

definition fan_out_targets :: "router \<Rightarrow> node_entry list" where
  "fan_out_targets r =
    filter node_healthy
      (filter (\<lambda>n. nc_id (ne_config n) \<in> set (rt_send_tx_node_ids r)) (rt_nodes r))"

text \<open>Iris when configured and healthy, else the node's RPC URL.\<close>

definition fan_out_url :: "node_entry \<Rightarrow> string" where
  "fan_out_url n =
    (case nc_iris_url (ne_config n) of
       Some iris \<Rightarrow> if nh_iris_healthy (ne_health n) then iris else nc_rpc_url (ne_config n)
     | None \<Rightarrow> nc_rpc_url (ne_config n))"

text \<open>The receive loop: the results in the order in which the spawned tasks deliver them.\<close>

fun fan_out_recv :: "(string + response) list \<Rightarrow> string option \<Rightarrow> string + response" where
  "fan_out_recv [] last_err =
     Inl (case last_err of Some e \<Rightarrow> e | None \<Rightarrow> ''All upstreams failed'')"
| "fan_out_recv (Inr resp # _) last_err = Inr resp"
| "fan_out_recv (Inl e # rest) last_err = fan_out_recv rest (Some e)"

text \<open>
  One task per target is spawned and all of them send, whichever answer is returned. \<open>arrive\<close> is
  the scheduler: it orders the targets by the arrival of their results.
\<close>

definition fan_out_send_tx ::
    "http_client \<Rightarrow> (node_entry list \<Rightarrow> node_entry list) \<Rightarrow> router \<Rightarrow> bytes
     \<Rightarrow> (string + response) \<times> node_entry list" where
  "fan_out_send_tx cl arrive r body =
    (let targets = fan_out_targets r
     in if targets = [] then (Inl ''No healthy nodes for sendTransaction'', [])
        else (fan_out_recv
                (map (\<lambda>n. forward_rpc_to cl n (fan_out_url n) body) (arrive targets)) None,
              targets))"

section \<open>Sequential failover\<close>

fun try_nodes ::
    "(node_entry \<Rightarrow> string + response) \<Rightarrow> node_entry list \<Rightarrow> string
     \<Rightarrow> (string + response) \<times> node_entry list" where
  "try_nodes fwd [] last_err = (Inl last_err, [])"
| "try_nodes fwd (n # ns) last_err =
    (case fwd n of
       Inr resp \<Rightarrow> (Inr resp, [n])
     | Inl e \<Rightarrow> (case try_nodes fwd ns e of (res, tried) \<Rightarrow> (res, n # tried)))"

definition forward_to_rpc :: "http_client \<Rightarrow> bytes \<Rightarrow> node_entry \<Rightarrow> string + response" where
  "forward_to_rpc cl body n = forward_rpc_to cl n (nc_rpc_url (ne_config n)) body"

definition forward_heavy_rpc ::
    "http_client \<Rightarrow> router \<Rightarrow> bytes \<Rightarrow> ((string + response) \<times> node_entry list) \<times> router" where
  "forward_heavy_rpc cl r body =
    (let healthy = filter node_healthy (rt_nodes r)
     in if healthy = [] then ((Inl ''No healthy nodes for heavy RPC'', []), r)
        else
          let start = unat (rt_heavy_rpc_counter r) mod length healthy;
              r' = r\<lparr>rt_heavy_rpc_counter := rt_heavy_rpc_counter r + 1\<rparr>
          in (try_nodes (forward_to_rpc cl body)
                (map (\<lambda>i. healthy ! ((start + i) mod length healthy)) [0..<length healthy]) [],
              r'))"

definition forward_read_rpc ::
    "http_client \<Rightarrow> router \<Rightarrow> bytes \<Rightarrow> (string + response) \<times> node_entry list" where
  "forward_read_rpc cl r body =
    (let healthy = filter node_healthy (rt_nodes r)
     in if healthy = [] then (Inl ''No healthy nodes'', [])
        else try_nodes (forward_to_rpc cl body) (sort_key node_priority healthy) [])"

section \<open>Building the cluster\<close>

definition new_nodes :: "config \<Rightarrow> node_entry list" where
  "new_nodes c = map (\<lambda>nc. \<lparr>ne_config = nc, ne_health = new_health (nc_id nc)\<rparr>) (cfg_nodes c)"

definition new_cluster_router :: "config \<Rightarrow> router" where
  "new_cluster_router c =
    new_router (new_nodes c) (get_send_tx_node_ids c) (get_grpc_eligible_node_ids c)"

section \<open>Contracts\<close>

text \<open>Selection by priority: what a caller of a \<open>pick_*\<close> function may rely on.\<close>

locale node_picker =
  fixes pick :: "router \<Rightarrow> node_entry option" and candidate :: "router \<Rightarrow> node_entry \<Rightarrow> bool"
  assumes pick_eq: "pick r = min_by_key node_priority (filter (candidate r) (rt_nodes r))"
begin

lemma pick_None_iff: "pick r = None \<longleftrightarrow> (\<forall>n \<in> set (rt_nodes r). \<not> candidate r n)"
  by (auto simp: pick_eq filter_empty_conv)

lemma pick_Some:
  assumes "pick r = Some n"
  shows "n \<in> set (rt_nodes r)" "candidate r n"
    "n' \<in> set (rt_nodes r) \<Longrightarrow> candidate r n' \<Longrightarrow> node_priority n \<le> node_priority n'"
  using assms min_by_key_in [of node_priority "filter (candidate r) (rt_nodes r)" n]
    min_by_key_le [of node_priority "filter (candidate r) (rt_nodes r)" n n']
  by (auto simp: pick_eq)

lemma pick_is_first:
  assumes "pick r = Some n"
  shows "n = hd (sort_key node_priority (filter (candidate r) (rt_nodes r)))"
  using assms by (auto simp: pick_eq min_by_key_eq_hd_sort split: if_splits)

end

interpretation read_pick: node_picker pick_read_node "\<lambda>r. node_healthy"
  by unfold_locales (simp add: pick_read_node_def)

interpretation grpc_pick: node_picker pick_grpc_node
  "\<lambda>r n. nc_id (ne_config n) \<in> set (rt_grpc_node_ids r) \<and> node_healthy n \<and> nh_grpc_healthy (ne_health n)"
  by unfold_locales (simp add: pick_grpc_node_def conj_ac)

text \<open>
  Forwarding: \<open>candidates\<close> are the nodes a policy may use, \<open>attempt\<close> what a node answers,
  \<open>result\<close>/\<open>contacted\<close> what the policy returns. The HTTP front end relies on nothing else.
\<close>

locale forward_policy =
  fixes candidates :: "node_entry list" and attempt :: "node_entry \<Rightarrow> string + response"
    and result :: "string + response" and contacted :: "node_entry list"
  assumes contacted_sub: "set contacted \<subseteq> set candidates"
    and ok_from: "result = Inr resp \<Longrightarrow> \<exists>n \<in> set contacted. attempt n = Inr resp"
    and err_all: "result = Inl e \<Longrightarrow> n \<in> set candidates \<Longrightarrow> \<exists>e'. attempt n = Inl e'"
    and err_contacts: "result = Inl e \<Longrightarrow> set contacted = set candidates"
begin

lemma answers_if_any_answers:
  "n \<in> set candidates \<Longrightarrow> attempt n = Inr resp \<Longrightarrow> \<exists>n' \<in> set candidates. \<exists>resp'. attempt n' = Inr resp' \<and> result = Inr resp'"
  using err_all [of _ n] ok_from contacted_sub by (cases result) fastforce+

lemma error_iff: "(\<exists>e. result = Inl e) \<longleftrightarrow> (\<forall>n \<in> set candidates. \<exists>e. attempt n = Inl e)"
  using err_all ok_from contacted_sub by (cases result) fastforce+

end

lemma try_nodes_contacted: "set (snd (try_nodes fwd ns e)) \<subseteq> set ns"
  by (induction ns arbitrary: e) (auto split: sum.splits simp: case_prod_beta)

lemma try_nodes_prefix: "prefix (snd (try_nodes fwd ns e)) ns"
  by (induction ns arbitrary: e) (auto split: sum.splits simp: case_prod_beta)

lemma try_nodes_Inr:
  "fst (try_nodes fwd ns e) = Inr resp \<Longrightarrow>
   \<exists>pre n. snd (try_nodes fwd ns e) = pre @ [n] \<and> fwd n = Inr resp \<and> (\<forall>m \<in> set pre. \<exists>e. fwd m = Inl e)"
proof (induction ns arbitrary: e)
  case (Cons n ns)
  show ?case
  proof (cases "fwd n")
    case (Inl e')
    with Cons.prems have "fst (try_nodes fwd ns e') = Inr resp" by (simp add: case_prod_beta)
    from Cons.IH [OF this] obtain pre m
      where "snd (try_nodes fwd ns e') = pre @ [m]" "fwd m = Inr resp" "\<forall>m \<in> set pre. \<exists>e. fwd m = Inl e"
      by blast
    with Inl show ?thesis by (intro exI [of _ "n # pre"] exI [of _ m]) (simp add: case_prod_beta)
  next
    case (Inr r)
    with Cons.prems show ?thesis by (intro exI [of _ "[]"] exI [of _ n]) simp
  qed
qed simp

lemma try_nodes_Inl:
  "fst (try_nodes fwd ns e) = Inl e' \<Longrightarrow> snd (try_nodes fwd ns e) = ns \<and> (\<forall>n \<in> set ns. \<exists>e. fwd n = Inl e)"
  by (induction ns arbitrary: e) (auto split: sum.splits simp: case_prod_beta)

lemma try_nodes_policy:
  assumes "set ns = set cands"
  shows "forward_policy cands fwd (fst (try_nodes fwd ns e)) (snd (try_nodes fwd ns e))"
proof
  show "set (snd (try_nodes fwd ns e)) \<subseteq> set cands"
    using try_nodes_contacted [of fwd ns e] assms by simp
  fix resp assume "fst (try_nodes fwd ns e) = Inr resp"
  from try_nodes_Inr [OF this] show "\<exists>n \<in> set (snd (try_nodes fwd ns e)). fwd n = Inr resp"
    by (metis in_set_conv_decomp)
next
  fix e' assume "fst (try_nodes fwd ns e) = Inl e'"
  note * = try_nodes_Inl [OF this]
  show "set (snd (try_nodes fwd ns e)) = set cands" using * assms by simp
  show "\<exists>e'. fwd n = Inl e'" if "n \<in> set cands" for n using * assms that by blast
qed

lemma empty_policy: "forward_policy [] fwd (Inl e) []"
  by unfold_locales auto

interpretation read_policy: forward_policy "filter node_healthy (rt_nodes r)" "forward_to_rpc cl body"
  "fst (forward_read_rpc cl r body)" "snd (forward_read_rpc cl r body)" for cl r body
  by (cases "filter node_healthy (rt_nodes r) = []")
    (simp_all add: forward_read_rpc_def Let_def empty_policy try_nodes_policy)

text \<open>The heavy path visits the healthy nodes in rotation.\<close>

lemma mset_rotate: "mset (rotate n xs) = mset xs"
  by (metis append_take_drop_id mset_append rotate_drop_take add.commute)

lemma heavy_order:
  "map (\<lambda>i. hs ! ((c mod length hs + i) mod length hs)) [0..<length hs] = rotate c hs"
  by (rule nth_equalityI) (simp_all add: nth_rotate mod_add_left_eq)

interpretation heavy_policy: forward_policy "filter node_healthy (rt_nodes r)" "forward_to_rpc cl body"
  "fst (fst (forward_heavy_rpc cl r body))" "snd (fst (forward_heavy_rpc cl r body))" for cl r body
proof (cases "filter node_healthy (rt_nodes r) = []")
  case True
  then show "forward_policy (filter node_healthy (rt_nodes r)) (forward_to_rpc cl body)
      (fst (fst (forward_heavy_rpc cl r body))) (snd (fst (forward_heavy_rpc cl r body)))"
    by (simp add: forward_heavy_rpc_def Let_def empty_policy)
next
  case False
  then show "forward_policy (filter node_healthy (rt_nodes r)) (forward_to_rpc cl body)
      (fst (fst (forward_heavy_rpc cl r body))) (snd (fst (forward_heavy_rpc cl r body)))"
    by (simp add: forward_heavy_rpc_def Let_def heavy_order try_nodes_policy)
qed

lemma fan_out_recv_Inr: "fan_out_recv rs le = Inr resp \<Longrightarrow> Inr resp \<in> set rs"
  by (induction rs le rule: fan_out_recv.induct) auto

lemma fan_out_recv_Inl: "fan_out_recv rs le = Inl e \<Longrightarrow> x \<in> set rs \<Longrightarrow> \<exists>e. x = Inl e"
  by (induction rs le rule: fan_out_recv.induct) auto

lemma fan_out_recv_first:
  "fan_out_recv rs le = (case find (\<lambda>x. \<exists>y. x = Inr y) rs of
     Some x \<Rightarrow> x
   | None \<Rightarrow> Inl (if rs = [] then (case le of Some e \<Rightarrow> e | None \<Rightarrow> ''All upstreams failed'')
                  else projl (last rs)))"
  by (induction rs le rule: fan_out_recv.induct) (auto split: option.splits)

lemma fan_out_policy:
  assumes "mset (arrive (fan_out_targets r)) = mset (fan_out_targets r)"
  shows "forward_policy (fan_out_targets r) (\<lambda>n. forward_rpc_to cl n (fan_out_url n) body)
    (fst (fan_out_send_tx cl arrive r body)) (snd (fan_out_send_tx cl arrive r body))"
proof (cases "fan_out_targets r = []")
  case True
  then show ?thesis by (simp add: fan_out_send_tx_def empty_policy)
next
  case False
  let ?att = "\<lambda>n. forward_rpc_to cl n (fan_out_url n) body"
  have s: "set (arrive (fan_out_targets r)) = set (fan_out_targets r)"
    using assms by (rule mset_eq_setD)
  have f: "fan_out_send_tx cl arrive r body
      = (fan_out_recv (map ?att (arrive (fan_out_targets r))) None, fan_out_targets r)"
    using False by (simp add: fan_out_send_tx_def Let_def)
  show ?thesis unfolding f
    by unfold_locales (use s fan_out_recv_Inr fan_out_recv_Inl in fastforce)+
qed

text \<open>The arrival order that serves the targets first to last, as one scheduler among all.\<close>

interpretation fan_out_in_order: forward_policy "fan_out_targets r"
  "\<lambda>n. forward_rpc_to cl n (fan_out_url n) body"
  "fst (fan_out_send_tx cl (\<lambda>ns. ns) r body)" "snd (fan_out_send_tx cl (\<lambda>ns. ns) r body)" for cl r body
  by (rule fan_out_policy) simp

section \<open>Properties\<close>

definition example_client :: http_client where
  "example_client =
    \<lparr>cl_parse_uri = Inr,
     cl_request = (\<lambda>nc uri body. if nc_id nc = ''a'' then TimedOut else Reply 200 ''ok'')\<rparr>"

definition example_router :: router where
  "example_router = new_router [example_node ''b'' 2, example_node ''a'' 1, example_node ''c'' 2]
     [''a'', ''b'', ''c''] [''a'', ''b'', ''c'']"

lemmas example_router_defs = example_router_def new_router_def example_client_def example_node_def
  new_health_def

lemma example_router_facts:
  "length (rt_nodes example_router) = 3" "rt_heavy_rpc_counter example_router = 0"
  by (simp_all add: example_router_def new_router_def)

lemma example_router_healthy [simp]:
  "filter node_healthy (rt_nodes example_router) = rt_nodes example_router"
  by (simp add: example_router_defs is_healthy_def get_status_def from_u8_def)

text \<open>Property C11. Ordinary reads: \<open>forward_read_rpc\<close> contacts healthy nodes only, in the stable
  order of their priorities and starting with the node \<open>pick_read_node\<close> names; it returns the
  answer of the last node contacted after every earlier one failed, and it reports an error
  exactly when every healthy node fails.\<close>

theorem read_rpc_failover:
  fixes cl r body
  defines "healthy \<equiv> filter node_healthy (rt_nodes r)"
    and "res \<equiv> fst (forward_read_rpc cl r body)"
    and "contacted \<equiv> snd (forward_read_rpc cl r body)"
  shows "prefix contacted (sort_key node_priority healthy)
    \<and> (healthy \<noteq> [] \<longrightarrow> contacted \<noteq> [] \<and> pick_read_node r = Some (hd contacted))
    \<and> (\<forall>resp. res = Inr resp \<longrightarrow> (\<exists>pre n. contacted = pre @ [n] \<and> forward_to_rpc cl body n = Inr resp
          \<and> (\<forall>m \<in> set pre. \<exists>e. forward_to_rpc cl body m = Inl e)))
    \<and> ((\<exists>e. res = Inl e) \<longleftrightarrow> (\<forall>n \<in> set healthy. \<exists>e. forward_to_rpc cl body n = Inl e))"
proof -
  have run: "(res, contacted) = try_nodes (forward_to_rpc cl body) (sort_key node_priority healthy) []"
    if "healthy \<noteq> []"
    using that by (simp add: res_def contacted_def healthy_def forward_read_rpc_def Let_def)
  have none: "contacted = []" "\<exists>e. res = Inl e" if "healthy = []"
    using that by (simp_all add: res_def contacted_def healthy_def forward_read_rpc_def)
  have pre: "prefix contacted (sort_key node_priority healthy)"
    using run none try_nodes_prefix by (cases "healthy = []") (simp, metis snd_conv)
  have ok: "\<exists>pre n. contacted = pre @ [n] \<and> forward_to_rpc cl body n = Inr resp
          \<and> (\<forall>m \<in> set pre. \<exists>e. forward_to_rpc cl body m = Inl e)" if "res = Inr resp" for resp
    using that run none(2) try_nodes_Inr by (metis (no_types, lifting) Inl_Inr_False fst_conv snd_conv)
  have first: "contacted \<noteq> [] \<and> pick_read_node r = Some (hd contacted)" if h: "healthy \<noteq> []"
  proof -
    have ne: "sort_key node_priority healthy \<noteq> []" using h by (metis length_0_conv length_sort)
    then have c: "contacted \<noteq> []"
      using run [OF h] by (cases "sort_key node_priority healthy") (auto split: sum.splits prod.splits)
    moreover have "hd contacted = hd (sort_key node_priority healthy)"
      using pre c by (auto simp: prefix_def)
    ultimately show ?thesis
      using h by (simp add: pick_read_node_def min_by_key_eq_hd_sort healthy_def)
  qed
  show ?thesis
    using pre ok first read_policy.error_iff [of cl r body] unfolding res_def healthy_def by blast
qed

theorem read_rpc_failover_witness:
  "fst (forward_read_rpc example_client example_router ''x'')
     = Inr \<lparr>rs_status = 200, rs_headers = json_headers, rs_body = Raw ''ok''\<rparr>
   \<and> map (nc_id \<circ> ne_config) (snd (forward_read_rpc example_client example_router ''x'')) = [''a'', ''b'']
   \<and> pick_read_node example_router = Some (hd (snd (forward_read_rpc example_client example_router ''x'')))"
  using read_rpc_failover [of example_client example_router "''x''"]
  by (simp add: forward_read_rpc_def Let_def forward_to_rpc_def forward_rpc_to_def example_router_defs
      is_healthy_def get_status_def from_u8_def)

definition heavy_first :: "http_client \<Rightarrow> bytes \<Rightarrow> router \<Rightarrow> node_entry" where
  "heavy_first cl body r = hd (snd (fst (forward_heavy_rpc cl r body)))"

definition heavy_after :: "http_client \<Rightarrow> bytes \<Rightarrow> nat \<Rightarrow> router \<Rightarrow> router" where
  "heavy_after cl body k r = ((\<lambda>r. snd (forward_heavy_rpc cl r body)) ^^ k) r"

lemma heavy_first_eq:
  assumes "filter node_healthy (rt_nodes r) \<noteq> []"
  shows "heavy_first cl body r = filter node_healthy (rt_nodes r) !
    (unat (rt_heavy_rpc_counter r) mod length (filter node_healthy (rt_nodes r)))"
proof -
  let ?hs = "filter node_healthy (rt_nodes r)"
  have "rotate (unat (rt_heavy_rpc_counter r)) ?hs \<noteq> []" using assms by simp
  then obtain n ns where ns: "rotate (unat (rt_heavy_rpc_counter r)) ?hs = n # ns"
    by (meson neq_Nil_conv)
  then have "heavy_first cl body r = n"
    using assms by (simp add: heavy_first_def forward_heavy_rpc_def Let_def heavy_order
        split: sum.splits prod.splits)
  with ns assms show ?thesis by (metis hd_rotate_conv_nth list.sel(1))
qed

lemma heavy_after_eq:
  assumes "filter node_healthy (rt_nodes r) \<noteq> []"
  shows "heavy_after cl body k r = r\<lparr>rt_heavy_rpc_counter := rt_heavy_rpc_counter r + of_nat k\<rparr>"
proof (induction k)
  case (Suc k)
  have "heavy_after cl body (Suc k) r = snd (forward_heavy_rpc cl (heavy_after cl body k r) body)"
    by (simp add: heavy_after_def)
  with Suc assms show ?case by (simp add: forward_heavy_rpc_def Let_def ac_simps)
qed (simp add: heavy_after_def)

text \<open>Property C33. Heavy reads are balanced: over as many consecutive heavy calls as there are
  healthy nodes (the health picture unchanged, the counter short of its wrap-around) each healthy
  node is the first choice exactly once, and each call advances the shared counter by one.\<close>

theorem heavy_round_robin:
  assumes "filter node_healthy (rt_nodes r) \<noteq> []"
    and "unat (rt_heavy_rpc_counter r) + length (filter node_healthy (rt_nodes r)) \<le> 2 ^ 64"
  shows "mset (map (\<lambda>k. heavy_first cl body (heavy_after cl body k r))
                [0..<length (filter node_healthy (rt_nodes r))])
       = mset (filter node_healthy (rt_nodes r))"
proof -
  let ?hs = "filter node_healthy (rt_nodes r)"
  let ?c = "unat (rt_heavy_rpc_counter r)"
  have "heavy_first cl body (heavy_after cl body k r) = ?hs ! ((?c mod length ?hs + k) mod length ?hs)"
    if "k < length ?hs" for k
  proof -
    have "unat (rt_heavy_rpc_counter r + of_nat k) = ?c + k"
      using that assms(2) by (simp add: unat_word_ariths unat_of_nat)
    then show ?thesis
      using assms(1) by (simp add: heavy_after_eq heavy_first_eq mod_add_left_eq)
  qed
  then have "map (\<lambda>k. heavy_first cl body (heavy_after cl body k r)) [0..<length ?hs]
      = map (\<lambda>k. ?hs ! ((?c mod length ?hs + k) mod length ?hs)) [0..<length ?hs]"
    by simp
  also have "\<dots> = rotate ?c ?hs" by (rule heavy_order)
  finally show ?thesis by (simp add: mset_rotate)
qed

theorem heavy_round_robin_witness:
  "mset (map (\<lambda>k. heavy_first example_client ''x'' (heavy_after example_client ''x'' k example_router)) [0..<3])
     = mset (rt_nodes example_router)"
proof -
  have "rt_nodes example_router \<noteq> []" using example_router_facts(1) by auto
  then show ?thesis
    using heavy_round_robin [of example_router example_client "''x''"]
    by (simp add: example_router_facts)
qed

text \<open>Heavy reads fail over: the nodes contacted are the healthy ones in rotation from
  the counter, each at most once; an error is returned exactly when all of them fail, and then all
  have been contacted.\<close>

theorem heavy_rpc_failover:
  fixes cl r body
  defines "healthy \<equiv> filter node_healthy (rt_nodes r)"
    and "res \<equiv> fst (fst (forward_heavy_rpc cl r body))"
    and "contacted \<equiv> snd (fst (forward_heavy_rpc cl r body))"
  shows "prefix contacted (rotate (unat (rt_heavy_rpc_counter r)) healthy)
    \<and> ((\<exists>e. res = Inl e) \<longleftrightarrow> (\<forall>n \<in> set healthy. \<exists>e. forward_to_rpc cl body n = Inl e))
    \<and> ((\<exists>e. res = Inl e) \<longrightarrow> mset contacted = mset healthy)"
proof -
  have run: "(res, contacted) = try_nodes (forward_to_rpc cl body)
      (rotate (unat (rt_heavy_rpc_counter r)) healthy) []" if "healthy \<noteq> []"
    using that by (simp add: res_def contacted_def healthy_def forward_heavy_rpc_def Let_def heavy_order)
  have none: "contacted = []" if "healthy = []"
    using that by (simp add: contacted_def healthy_def forward_heavy_rpc_def)
  have pre: "prefix contacted (rotate (unat (rt_heavy_rpc_counter r)) healthy)"
    using run none try_nodes_prefix by (cases "healthy = []") (simp, metis snd_conv)
  have "mset contacted = mset healthy" if "res = Inl e" for e
    using that run none try_nodes_Inl [of "forward_to_rpc cl body" _ "[]" e]
    by (cases "healthy = []") (simp, metis fst_conv snd_conv mset_rotate)
  then show ?thesis
    using pre heavy_policy.error_iff [of cl r body] unfolding res_def healthy_def by blast
qed

theorem heavy_rpc_failover_witness:
  "(let r = example_router\<lparr>rt_heavy_rpc_counter := 1\<rparr>
    in map (nc_id \<circ> ne_config) (snd (fst (forward_heavy_rpc example_client r ''x''))) = [''a'', ''c'']
     \<and> prefix (snd (fst (forward_heavy_rpc example_client r ''x''))) (rotate 1 (rt_nodes r)))"
  using heavy_rpc_failover [of example_client "example_router\<lparr>rt_heavy_rpc_counter := 1\<rparr>" "''x''"]
  by (simp add: Let_def forward_heavy_rpc_def forward_to_rpc_def forward_rpc_to_def
      example_router_defs is_healthy_def get_status_def from_u8_def upt_rec)

text \<open>Property C12. Transaction fan-out: every healthy send-tx target is sent the transaction; for
  any order in which the answers arrive, the caller gets the first success, and an error exactly
  when every target fails.\<close>

theorem fan_out_first_success:
  assumes "mset (arrive (fan_out_targets r)) = mset (fan_out_targets r)"
  shows "snd (fan_out_send_tx cl arrive r body) = fan_out_targets r
    \<and> ((\<exists>e. fst (fan_out_send_tx cl arrive r body) = Inl e) \<longleftrightarrow>
         (\<forall>n \<in> set (fan_out_targets r). \<exists>e. forward_rpc_to cl n (fan_out_url n) body = Inl e))
    \<and> (\<forall>resp. fst (fan_out_send_tx cl arrive r body) = Inr resp \<longleftrightarrow>
         find (\<lambda>x. \<exists>y. x = Inr y)
           (map (\<lambda>n. forward_rpc_to cl n (fan_out_url n) body) (arrive (fan_out_targets r)))
         = Some (Inr resp))"
proof -
  have e: "arrive (fan_out_targets r) = [] \<longleftrightarrow> fan_out_targets r = []"
    using assms by (metis mset_zero_iff)
  have "snd (fan_out_send_tx cl arrive r body) = fan_out_targets r"
    by (simp add: fan_out_send_tx_def Let_def)
  moreover have "fst (fan_out_send_tx cl arrive r body) = Inr resp \<longleftrightarrow>
       find (\<lambda>x. \<exists>y. x = Inr y)
         (map (\<lambda>n. forward_rpc_to cl n (fan_out_url n) body) (arrive (fan_out_targets r)))
       = Some (Inr resp)" for resp
    using e by (auto simp: fan_out_send_tx_def Let_def fan_out_recv_first
        split: option.splits)
  ultimately show ?thesis
    using forward_policy.error_iff [OF fan_out_policy [of arrive r cl body, OF assms]] by blast
qed

theorem fan_out_first_success_witness:
  "map (nc_id \<circ> ne_config) (snd (fan_out_send_tx example_client rev example_router ''x'')) = [''b'', ''a'', ''c'']
   \<and> (\<exists>resp. fst (fan_out_send_tx example_client rev example_router ''x'') = Inr resp)"
proof -
  have "mset (rev (fan_out_targets example_router)) = mset (fan_out_targets example_router)" by simp
  from fan_out_first_success [where arrive = rev and r = example_router, OF this, of example_client "''x''"]
  show ?thesis
    by (simp add: fan_out_targets_def fan_out_send_tx_def fan_out_url_def forward_rpc_to_def
        example_router_defs is_healthy_def get_status_def from_u8_def)
qed

definition grpc_candidate :: "router \<Rightarrow> node_entry \<Rightarrow> bool" where
  "grpc_candidate r n \<longleftrightarrow> n \<in> set (rt_nodes r) \<and> nc_id (ne_config n) \<in> set (rt_grpc_node_ids r)
     \<and> node_healthy n \<and> nh_grpc_healthy (ne_health n)"

text \<open>gRPC selection: \<open>pick_grpc_node\<close> returns a configured gRPC node that passes both
  the RPC and the gRPC health checks and has the lowest priority number among those, and returns
  none only if no node qualifies.\<close>

theorem grpc_node_selection:
  "case pick_grpc_node r of
     Some n \<Rightarrow> grpc_candidate r n \<and> (\<nexists>n'. grpc_candidate r n' \<and> node_priority n' < node_priority n)
   | None \<Rightarrow> (\<nexists>n. grpc_candidate r n)"
proof (cases "pick_grpc_node r")
  case None
  then show ?thesis using grpc_pick.pick_None_iff [of r] by (auto simp: grpc_candidate_def)
next
  case (Some n)
  then show ?thesis
    using grpc_pick.pick_Some [OF Some] by (auto simp: grpc_candidate_def not_less)
qed

end
