(* ===== verification/Stats.thy ===== *)
theory Stats
  imports Config
begin

text \<open>
  Traffic statistics (\<open>src/src/stats.rs\<close>). The atomics are 64-bit words that wrap; the
  \<open>DashMap<IpAddr, Arc<IpStats>>\<close> is an association list with distinct keys whose order is the
  unspecified iteration order. Entries are never removed and every holder of an \<open>Arc<IpStats>\<close>
  got it from the map, so writing through the map is writing through the \<open>Arc\<close>.
  \<open>IpAddr\<close>'s \<open>Display\<close>/\<open>FromStr\<close> and the JSON printer and parser are arguments.
\<close>

section \<open>State\<close>

record ip_stats =
  is_active_rpc_conns :: u64
  is_active_ws_conns :: u64
  is_active_grpc_streams :: u64
  is_active_arpc_streams :: u64
  is_total_rpc_requests :: u64
  is_total_tx_sends :: u64
  is_total_ws_messages :: u64
  is_total_grpc_requests :: u64
  is_total_arpc_requests :: u64
  is_rate_limited_count :: u64
  is_error_count :: u64
  is_last_seen_epoch_ms :: u64
  is_rps_current :: u64
  is_tps_current :: u64

definition default_ip_stats :: ip_stats where
  "default_ip_stats =
    \<lparr>is_active_rpc_conns = 0, is_active_ws_conns = 0,
     is_active_grpc_streams = 0, is_active_arpc_streams = 0,
     is_total_rpc_requests = 0, is_total_tx_sends = 0,
     is_total_ws_messages = 0, is_total_grpc_requests = 0,
     is_total_arpc_requests = 0, is_rate_limited_count = 0,
     is_error_count = 0, is_last_seen_epoch_ms = 0,
     is_rps_current = 0, is_tps_current = 0\<rparr>"

record ip_stats_snapshot =
  sn_active_rpc_conns :: u64
  sn_active_ws_conns :: u64
  sn_active_grpc_streams :: u64
  sn_active_arpc_streams :: u64
  sn_total_rpc_requests :: u64
  sn_total_tx_sends :: u64
  sn_total_ws_messages :: u64
  sn_total_grpc_requests :: u64
  sn_total_arpc_requests :: u64
  sn_rate_limited_count :: u64
  sn_error_count :: u64
  sn_rps_current :: u64
  sn_tps_current :: u64
  sn_last_seen_epoch_ms :: u64

definition snapshot :: "ip_stats \<Rightarrow> ip_stats_snapshot" where
  "snapshot s =
    \<lparr>sn_active_rpc_conns = is_active_rpc_conns s,
     sn_active_ws_conns = is_active_ws_conns s,
     sn_active_grpc_streams = is_active_grpc_streams s,
     sn_active_arpc_streams = is_active_arpc_streams s,
     sn_total_rpc_requests = is_total_rpc_requests s,
     sn_total_tx_sends = is_total_tx_sends s,
     sn_total_ws_messages = is_total_ws_messages s,
     sn_total_grpc_requests = is_total_grpc_requests s,
     sn_total_arpc_requests = is_total_arpc_requests s,
     sn_rate_limited_count = is_rate_limited_count s,
     sn_error_count = is_error_count s,
     sn_rps_current = is_rps_current s,
     sn_tps_current = is_tps_current s,
     sn_last_seen_epoch_ms = is_last_seen_epoch_ms s\<rparr>"

definition touch :: "u64 \<Rightarrow> ip_stats \<Rightarrow> ip_stats" where
  "touch now_ms s = s\<lparr>is_last_seen_epoch_ms := now_ms\<rparr>"

record stats =
  st_per_ip :: "(ip_addr \<times> ip_stats) list"
  st_start_time :: instant
  st_global_rps_current :: u64
  st_global_tps_current :: u64
  st_global_total_requests :: u64
  st_subscribe_supervisor_alive :: u64
  st_subscribe_supervisor_drops_total :: u64
  st_forwarder_aborted_total :: u64

record global_stats_snapshot =
  gs_uptime_secs :: nat
  gs_total_requests :: u64
  gs_global_rps :: u64
  gs_global_tps :: u64
  gs_connected_ips :: nat
  gs_subscribe_supervisor_alive :: u64
  gs_subscribe_supervisor_drops_total :: u64
  gs_forwarder_aborted_total :: u64

definition new_stats :: "instant \<Rightarrow> stats" where
  "new_stats now =
    \<lparr>st_per_ip = [], st_start_time = now, st_global_rps_current = 0, st_global_tps_current = 0,
     st_global_total_requests = 0, st_subscribe_supervisor_alive = 0,
     st_subscribe_supervisor_drops_total = 0, st_forwarder_aborted_total = 0\<rparr>"

section \<open>Operations\<close>

definition get_or_create :: "ip_addr \<Rightarrow> stats \<Rightarrow> ip_stats \<times> stats" where
  "get_or_create ip s =
    (case map_of (st_per_ip s) ip of
       Some x \<Rightarrow> (x, s)
     | None \<Rightarrow> (default_ip_stats, s\<lparr>st_per_ip := AList.update ip default_ip_stats (st_per_ip s)\<rparr>))"

text \<open>An atomic read-modify-write through the \<open>Arc\<close> that \<open>get_or_create\<close> returned.\<close>

definition modify_ip :: "ip_addr \<Rightarrow> (ip_stats \<Rightarrow> ip_stats) \<Rightarrow> stats \<Rightarrow> stats" where
  "modify_ip ip f s =
    (case get_or_create ip s of
       (x, s') \<Rightarrow> s'\<lparr>st_per_ip := AList.update ip (f x) (st_per_ip s')\<rparr>)"

definition record_rpc :: "u64 \<Rightarrow> ip_addr \<Rightarrow> bool \<Rightarrow> stats \<Rightarrow> stats" where
  "record_rpc now_ms ip is_send_tx s =
    (let s = modify_ip ip (\<lambda>x. touch now_ms
               (x\<lparr>is_total_rpc_requests := is_total_rpc_requests x + 1,
                  is_rps_current := is_rps_current x + 1\<rparr>)) s;
         s = s\<lparr>st_global_total_requests := st_global_total_requests s + 1,
               st_global_rps_current := st_global_rps_current s + 1\<rparr>
     in if is_send_tx
        then
          let s = modify_ip ip (\<lambda>x. x\<lparr>is_total_tx_sends := is_total_tx_sends x + 1,
                    is_tps_current := is_tps_current x + 1\<rparr>) s
          in s\<lparr>st_global_tps_current := st_global_tps_current s + 1\<rparr>
        else s)"

definition record_rate_limited :: "ip_addr \<Rightarrow> stats \<Rightarrow> stats" where
  "record_rate_limited ip s =
    modify_ip ip (\<lambda>x. x\<lparr>is_rate_limited_count := is_rate_limited_count x + 1\<rparr>) s"

definition record_error :: "ip_addr \<Rightarrow> stats \<Rightarrow> stats" where
  "record_error ip s = modify_ip ip (\<lambda>x. x\<lparr>is_error_count := is_error_count x + 1\<rparr>) s"

definition global_snapshot :: "instant \<Rightarrow> stats \<Rightarrow> global_stats_snapshot" where
  "global_snapshot now s =
    \<lparr>gs_uptime_secs = (now - st_start_time s) div 1000,
     gs_total_requests = st_global_total_requests s,
     gs_global_rps = st_global_rps_current s,
     gs_global_tps = st_global_tps_current s,
     gs_connected_ips = length (st_per_ip s),
     gs_subscribe_supervisor_alive = st_subscribe_supervisor_alive s,
     gs_subscribe_supervisor_drops_total = st_subscribe_supervisor_drops_total s,
     gs_forwarder_aborted_total = st_forwarder_aborted_total s\<rparr>"

definition reset_rolling_counters :: "stats \<Rightarrow> stats" where
  "reset_rolling_counters s =
    s\<lparr>st_global_rps_current := 0, st_global_tps_current := 0,
      st_per_ip := map (\<lambda>(ip, x). (ip, x\<lparr>is_rps_current := 0, is_tps_current := 0\<rparr>)) (st_per_ip s)\<rparr>"

section \<open>Persistence\<close>

record persisted_ip_stats =
  pi_total_rpc_requests :: u64
  pi_total_tx_sends :: u64
  pi_total_ws_messages :: u64
  pi_total_grpc_requests :: u64
  pi_total_arpc_requests :: u64
  pi_rate_limited_count :: u64
  pi_error_count :: u64

record persisted_stats =
  ps_global_total_requests :: u64
  ps_per_ip :: "(string \<times> persisted_ip_stats) list"

definition persist_ip :: "ip_stats \<Rightarrow> persisted_ip_stats" where
  "persist_ip s =
    \<lparr>pi_total_rpc_requests = is_total_rpc_requests s,
     pi_total_tx_sends = is_total_tx_sends s,
     pi_total_ws_messages = is_total_ws_messages s,
     pi_total_grpc_requests = is_total_grpc_requests s,
     pi_total_arpc_requests = is_total_arpc_requests s,
     pi_rate_limited_count = is_rate_limited_count s,
     pi_error_count = is_error_count s\<rparr>"

definition persist :: "(ip_addr \<Rightarrow> string) \<Rightarrow> stats \<Rightarrow> persisted_stats" where
  "persist to_string s =
    \<lparr>ps_global_total_requests = st_global_total_requests s,
     ps_per_ip = insert_all (\<lambda>e. to_string (fst e)) (\<lambda>e. persist_ip (snd e)) (st_per_ip s) []\<rparr>"

definition save_to_file ::
    "(ip_addr \<Rightarrow> string) \<Rightarrow> (persisted_stats \<Rightarrow> string option) \<Rightarrow> write_outcome \<Rightarrow> bool \<Rightarrow> fs \<Rightarrow> string
     \<Rightarrow> stats \<Rightarrow> bool \<times> fs" where
  "save_to_file to_string to_json wr rename_ok fs path s =
    (case to_json (persist to_string s) of
       None \<Rightarrow> (False, fs)
     | Some json \<Rightarrow> write_then_rename wr rename_ok (with_extension path ''json.tmp'') path json fs)"

definition load_from_file :: "(string \<Rightarrow> persisted_stats option) \<Rightarrow> fs \<Rightarrow> string \<Rightarrow> persisted_stats option" where
  "load_from_file from_json fs path = Option.bind (fs path) from_json"

definition restore_ip :: "persisted_ip_stats \<Rightarrow> ip_stats \<Rightarrow> ip_stats" where
  "restore_ip p x =
    x\<lparr>is_total_rpc_requests := pi_total_rpc_requests p,
      is_total_tx_sends := pi_total_tx_sends p,
      is_total_ws_messages := pi_total_ws_messages p,
      is_total_grpc_requests := pi_total_grpc_requests p,
      is_total_arpc_requests := pi_total_arpc_requests p,
      is_rate_limited_count := pi_rate_limited_count p,
      is_error_count := pi_error_count p\<rparr>"

definition restore :: "(string \<Rightarrow> ip_addr option) \<Rightarrow> persisted_stats \<Rightarrow> stats \<Rightarrow> stats" where
  "restore parse p s =
    fold (\<lambda>(ip_str, pstats) s.
            case parse ip_str of Some ip \<Rightarrow> modify_ip ip (restore_ip pstats) s | None \<Rightarrow> s)
      (ps_per_ip p)
      (s\<lparr>st_global_total_requests := ps_global_total_requests p\<rparr>)"

section \<open>Lemmas\<close>

definition ip_entry :: "ip_addr \<Rightarrow> stats \<Rightarrow> ip_stats" where
  "ip_entry ip s = fst (get_or_create ip s)"

lemma ip_entry_eq: "ip_entry ip s = (case map_of (st_per_ip s) ip of Some x \<Rightarrow> x | None \<Rightarrow> default_ip_stats)"
  by (simp add: ip_entry_def get_or_create_def split: option.splits)

lemma modify_ip_eq: "modify_ip ip f s = s\<lparr>st_per_ip := AList.update ip (f (ip_entry ip s)) (st_per_ip s)\<rparr>"
  by (simp add: modify_ip_def get_or_create_def ip_entry_def split: option.splits)

lemma ip_entry_modify [simp]:
  "ip_entry i (modify_ip ip f s) = (if i = ip then f (ip_entry ip s) else ip_entry i s)"
  by (simp add: modify_ip_eq ip_entry_eq alist_simps)

lemma per_ip_modify [simp]:
  "map_of (st_per_ip (modify_ip ip f s)) = (map_of (st_per_ip s))(ip \<mapsto> f (ip_entry ip s))"
  by (simp add: modify_ip_eq alist_simps)

lemma modify_ip_frame [frame_simps]:
  "st_global_total_requests (modify_ip ip f s) = st_global_total_requests s"
  "st_global_rps_current (modify_ip ip f s) = st_global_rps_current s"
  "st_global_tps_current (modify_ip ip f s) = st_global_tps_current s"
  "st_subscribe_supervisor_alive (modify_ip ip f s) = st_subscribe_supervisor_alive s"
  "st_start_time (modify_ip ip f s) = st_start_time s"
  by (simp_all add: modify_ip_eq)

lemma ip_entry_global [simp]:
  "ip_entry ip (s\<lparr>st_global_total_requests := a\<rparr>) = ip_entry ip s"
  "ip_entry ip (s\<lparr>st_global_rps_current := a\<rparr>) = ip_entry ip s"
  "ip_entry ip (s\<lparr>st_global_tps_current := a\<rparr>) = ip_entry ip s"
  "ip_entry ip (s\<lparr>st_subscribe_supervisor_alive := a\<rparr>) = ip_entry ip s"
  "ip_entry ip (s\<lparr>st_subscribe_supervisor_drops_total := a\<rparr>) = ip_entry ip s"
  "ip_entry ip (s\<lparr>st_forwarder_aborted_total := a\<rparr>) = ip_entry ip s"
  by (simp_all add: ip_entry_eq)

lemma get_or_create_entry [simp]:
  "ip_entry i (snd (get_or_create ip st)) = ip_entry i st"
  "st_subscribe_supervisor_alive (snd (get_or_create ip st)) = st_subscribe_supervisor_alive st"
  by (auto simp: ip_entry_eq get_or_create_def alist_simps split: option.splits)

lemma distinct_modify_ip: "distinct_keys (st_per_ip s) \<Longrightarrow> distinct_keys (st_per_ip (modify_ip ip f s))"
  by (simp add: modify_ip_eq distinct_update)

text \<open>A per-client counter summed over all clients, in wrapping arithmetic.\<close>

definition ip_sum :: "(ip_stats \<Rightarrow> u64) \<Rightarrow> stats \<Rightarrow> u64" where
  "ip_sum g s = sum_list (map (\<lambda>e. g (snd e)) (st_per_ip s))"

lemma sum_list_update:
  fixes g :: "'v \<Rightarrow> 'w::ab_group_add"
  shows "sum_list (map (\<lambda>e. g (snd e)) (AList.update k v al))
    = sum_list (map (\<lambda>e. g (snd e)) al) + g v - (case map_of al k of Some x \<Rightarrow> g x | None \<Rightarrow> 0)"
  by (induction al) (auto simp: algebra_simps)

lemma ip_sum_modify:
  "g default_ip_stats = 0 \<Longrightarrow> ip_sum g (modify_ip ip f s) = ip_sum g s + g (f (ip_entry ip s)) - g (ip_entry ip s)"
  by (simp add: ip_sum_def modify_ip_eq sum_list_update ip_entry_eq split: option.splits)

lemma ip_sum_global [simp]:
  "ip_sum g (s\<lparr>st_global_total_requests := a\<rparr>) = ip_sum g s"
  "ip_sum g (s\<lparr>st_global_rps_current := a\<rparr>) = ip_sum g s"
  "ip_sum g (s\<lparr>st_global_tps_current := a\<rparr>) = ip_sum g s"
  "ip_sum g (s\<lparr>st_subscribe_supervisor_alive := a\<rparr>) = ip_sum g s"
  "ip_sum g (s\<lparr>st_subscribe_supervisor_drops_total := a\<rparr>) = ip_sum g s"
  "ip_sum g (s\<lparr>st_forwarder_aborted_total := a\<rparr>) = ip_sum g s"
  by (simp_all add: ip_sum_def)

text \<open>The accounting invariant of the statistics: the rolling windows are the sums of the clients' ones,
  the global total exceeds the sum of theirs by what the file that was restored had in excess.\<close>

definition stats_inv :: "u64 \<Rightarrow> stats \<Rightarrow> bool" where
  "stats_inv \<delta> s \<longleftrightarrow> distinct_keys (st_per_ip s)
    \<and> st_global_total_requests s = ip_sum is_total_rpc_requests s + \<delta>
    \<and> st_global_rps_current s = ip_sum is_rps_current s
    \<and> st_global_tps_current s = ip_sum is_tps_current s"

lemma stats_inv_modify:
  assumes "stats_inv \<delta> s"
    and "\<And>x. is_total_rpc_requests (f x) = is_total_rpc_requests x"
    and "\<And>x. is_rps_current (f x) = is_rps_current x" "\<And>x. is_tps_current (f x) = is_tps_current x"
  shows "stats_inv \<delta> (modify_ip ip f s)"
  using assms
  by (simp add: stats_inv_def ip_sum_modify default_ip_stats_def frame_simps distinct_modify_ip)

lemma stats_inv_new: "stats_inv 0 (new_stats t)"
  by (simp add: stats_inv_def new_stats_def ip_sum_def)

lemma stats_inv_record_rpc: "stats_inv \<delta> s \<Longrightarrow> stats_inv \<delta> (record_rpc now ip tx s)"
  by (simp add: stats_inv_def record_rpc_def Let_def ip_sum_modify default_ip_stats_def touch_def
      frame_simps distinct_modify_ip)

lemma stats_inv_record_rate_limited: "stats_inv \<delta> s \<Longrightarrow> stats_inv \<delta> (record_rate_limited ip s)"
  unfolding record_rate_limited_def by (rule stats_inv_modify) simp_all

lemma stats_inv_record_error: "stats_inv \<delta> s \<Longrightarrow> stats_inv \<delta> (record_error ip s)"
  unfolding record_error_def by (rule stats_inv_modify) simp_all

lemma stats_inv_reset: "stats_inv \<delta> s \<Longrightarrow> stats_inv \<delta> (reset_rolling_counters s)"
  by (auto simp: stats_inv_def reset_rolling_counters_def ip_sum_def case_prod_beta comp_def)

lemma stats_inv_supervisor [simp]:
  "stats_inv \<delta> (s\<lparr>st_subscribe_supervisor_alive := a\<rparr>) = stats_inv \<delta> s"
  "stats_inv \<delta> (s\<lparr>st_subscribe_supervisor_drops_total := a\<rparr>) = stats_inv \<delta> s"
  "stats_inv \<delta> (s\<lparr>st_forwarder_aborted_total := a\<rparr>) = stats_inv \<delta> s"
  by (simp_all add: stats_inv_def)

lemma stats_inv_get_or_create: "stats_inv \<delta> s \<Longrightarrow> stats_inv \<delta> (snd (get_or_create ip s))"
  by (auto simp: stats_inv_def get_or_create_def ip_sum_def sum_list_update default_ip_stats_def distinct_update
      split: option.splits)

lemmas stats_inv_intros = stats_inv_new stats_inv_record_rpc stats_inv_record_rate_limited
  stats_inv_record_error stats_inv_reset stats_inv_get_or_create

lemma record_rpc_entry:
  "ip_entry i (record_rpc now ip tx s) =
    (if i = ip
     then (ip_entry ip s)\<lparr>is_total_rpc_requests := is_total_rpc_requests (ip_entry ip s) + 1,
            is_rps_current := is_rps_current (ip_entry ip s) + 1, is_last_seen_epoch_ms := now,
            is_total_tx_sends := is_total_tx_sends (ip_entry ip s) + (if tx then 1 else 0),
            is_tps_current := is_tps_current (ip_entry ip s) + (if tx then 1 else 0)\<rparr>
     else ip_entry i s)"
  by (simp add: record_rpc_def Let_def touch_def)

text \<open>Restoring a list of persisted entries touches each parsed address with its own entry.\<close>

definition restored_entry :: "ip_stats \<Rightarrow> ip_stats" where
  "restored_entry x = restore_ip (persist_ip x) default_ip_stats"

lemma restore_fold_lookup:
  assumes "\<forall>ip \<in> fst ` set es. parse (to_string ip) = Some ip" and "distinct (map fst es)"
  shows "map_of (st_per_ip (fold (\<lambda>(ip_str, pstats) s.
            case parse ip_str of Some ip \<Rightarrow> modify_ip ip (restore_ip pstats) s | None \<Rightarrow> s)
          (map (\<lambda>e. (to_string (fst e), persist_ip (snd e))) es) s)) ip
       = (case map_of es ip of Some x \<Rightarrow> Some (restore_ip (persist_ip x) (ip_entry ip s))
          | None \<Rightarrow> map_of (st_per_ip s) ip)"
  using assms
proof (induction es arbitrary: s)
  case (Cons e es)
  obtain a b where e: "e = (a, b)" by (cases e)
  with Cons.prems have "map_of es a = None" by (simp add: map_of_eq_None_iff)
  with e Cons show ?case by (cases "ip = a") (simp_all split: option.splits)
qed simp

lemma insert_all_map:
  "distinct (map k xs) \<Longrightarrow> set (map k xs) \<inter> fst ` set al = {} \<Longrightarrow>
   insert_all k v xs al = al @ map (\<lambda>x. (k x, v x)) xs"
proof (induction xs arbitrary: al)
  case (Cons x xs)
  have "AList.update (k x) (v x) al = al @ [(k x, v x)]"
    using Cons.prems by (induction al) auto
  with Cons show ?case by auto
qed simp

lemma restore_global [simp]:
  "st_global_total_requests (restore parse p s) = ps_global_total_requests p"
proof -
  have "st_global_total_requests (fold (\<lambda>(ip_str, pstats) s.
            case parse ip_str of Some ip \<Rightarrow> modify_ip ip (restore_ip pstats) s | None \<Rightarrow> s) ps s')
       = st_global_total_requests s'" for ps s'
    by (induction ps arbitrary: s') (auto simp: frame_simps split: option.splits)
  then show ?thesis by (simp add: restore_def)
qed

text \<open>Persistence round trip: statistics saved to a file and restored by a fresh
  process give back the global total and, for every client, exactly the cumulative totals
  (connections, rolling windows and last-seen start at zero), and no other client.\<close>

lemma stats_save_restore:
  assumes "distinct_keys (st_per_ip s)"
    and "\<forall>ip \<in> fst ` set (st_per_ip s). parse (to_string ip) = Some ip"
    and "to_json (persist to_string s) = Some j" and "from_json j = Some (persist to_string s)"
  shows "\<exists>p. load_from_file from_json
            (snd (save_to_file to_string to_json Written True fs path s)) path = Some p
    \<and> st_global_total_requests (restore parse p (new_stats t)) = st_global_total_requests s
    \<and> (\<forall>ip. map_of (st_per_ip (restore parse p (new_stats t))) ip
           = map_option restored_entry (map_of (st_per_ip s) ip))"
proof (intro exI conjI allI)
  let ?p = "persist to_string s"
  show "load_from_file from_json (snd (save_to_file to_string to_json Written True fs path s)) path = Some ?p"
    using assms(3,4) by (simp add: load_from_file_def save_to_file_def write_then_rename_def Let_def)
  show "st_global_total_requests (restore parse ?p (new_stats t)) = st_global_total_requests s"
    by (simp add: persist_def)
  have "inj_on to_string (fst ` set (st_per_ip s))"
    using assms(2) by (metis inj_onI option.inject)
  with assms(1) have "distinct (map (\<lambda>e. to_string (fst e)) (st_per_ip s))"
    by (simp add: distinct_map comp_inj_on_iff comp_def)
  then have "ps_per_ip ?p = map (\<lambda>e. (to_string (fst e), persist_ip (snd e))) (st_per_ip s)"
    by (simp add: persist_def insert_all_map)
  then show "map_of (st_per_ip (restore parse ?p (new_stats t))) ip
      = map_option restored_entry (map_of (st_per_ip s) ip)" for ip
    using restore_fold_lookup [where es = "st_per_ip s" and parse = parse and to_string = to_string,
        OF assms(2,1)]
    by (simp add: restore_def restored_entry_def ip_entry_eq new_stats_def split: option.splits)
qed

end
