(* ===== verification/Access_Store.thy ===== *)
theory Access_Store
  imports Config
begin

text \<open>
  The two access lists of the proxy: the IP whitelist (\<open>src/src/middleware/ip_whitelist.rs\<close>) and the
  API key store (\<open>src/src/middleware/api_keys.rs\<close>). Both keep an immutable collection behind an
  \<open>ArcSwap\<close>; an update clones it, changes the clone and swaps it in, so the state is the current
  collection. They share one contract, the locale \<open>access_store\<close>: membership after a log of
  additions and removals is decided by the last entry of the log for that key.
\<close>

section \<open>IP whitelist\<close>

type_synonym ip_whitelist = "ip_addr set"

definition new_whitelist :: "ip_addr set \<Rightarrow> ip_whitelist" where
  "new_whitelist ips = ips"

definition is_allowed :: "ip_whitelist \<Rightarrow> ip_addr \<Rightarrow> bool" where
  "is_allowed w ip \<longleftrightarrow> ip \<in> w"

definition update_whitelist :: "ip_addr set \<Rightarrow> ip_whitelist \<Rightarrow> ip_whitelist" where
  "update_whitelist ips w = ips"

definition get_all_whitelist :: "ip_whitelist \<Rightarrow> ip_addr set" where
  "get_all_whitelist w = w"

definition add_ip :: "ip_addr \<Rightarrow> ip_whitelist \<Rightarrow> ip_whitelist" where
  "add_ip ip w = insert ip w"

definition remove_ip :: "ip_addr \<Rightarrow> ip_whitelist \<Rightarrow> ip_whitelist" where
  "remove_ip ip w = w - {ip}"

section \<open>API keys\<close>

record api_key_data =
  kd_label :: string
  kd_rps :: "u32 option"
  kd_tps :: "u32 option"
  kd_burst_rps :: "u32 option"
  kd_burst_tps :: "u32 option"
  kd_created_at :: string

type_synonym api_key_store = "(string \<times> api_key_data) list"

definition entry_data :: "api_key_entry \<Rightarrow> api_key_data" where
  "entry_data e =
    \<lparr>kd_label = ak_label e, kd_rps = ak_rps e, kd_tps = ak_tps e, kd_burst_rps = ak_burst_rps e,
     kd_burst_tps = ak_burst_tps e, kd_created_at = ak_created_at e\<rparr>"

definition new_key_store :: "api_key_entry list \<Rightarrow> api_key_store" where
  "new_key_store entries = insert_all ak_key entry_data (filter (\<lambda>e. \<not> ak_revoked e) entries) []"

definition validate_key :: "api_key_store \<Rightarrow> string \<Rightarrow> api_key_data option" where
  "validate_key ks key = map_of ks key"

definition add_key :: "string \<Rightarrow> api_key_data \<Rightarrow> api_key_store \<Rightarrow> api_key_store" where
  "add_key key data ks = AList.update key data ks"

definition revoke_key :: "string \<Rightarrow> api_key_store \<Rightarrow> bool \<times> api_key_store" where
  "revoke_key key ks =
    (let current = AList.delete key ks; removed = (map_of ks key \<noteq> None)
     in (removed, if removed then current else ks))"

definition list_keys :: "api_key_store \<Rightarrow> (string \<times> api_key_data) list" where
  "list_keys ks = ks"

definition reload_keys :: "api_key_entry list \<Rightarrow> api_key_store \<Rightarrow> api_key_store" where
  "reload_keys entries ks = insert_all ak_key entry_data (filter (\<lambda>e. \<not> ak_revoked e) entries) []"

text \<open>\<open>generate_api_key\<close> from the sixteen random bytes: \<open>sk_\<close> and two lower-case hex digits each.\<close>

definition hex_digit :: "nat \<Rightarrow> char" where
  "hex_digit n = ''0123456789abcdef'' ! n"

definition hex_byte :: "u8 \<Rightarrow> string" where
  "hex_byte b = [hex_digit (unat b div 16), hex_digit (unat b mod 16)]"

definition generate_api_key :: "u8 list \<Rightarrow> string" where
  "generate_api_key bs = ''sk_'' @ concat (map hex_byte bs)"

section \<open>The shared contract\<close>

datatype ('k, 'd) store_op = Add 'k 'd | Remove 'k

fun op_key :: "('k, 'd) store_op \<Rightarrow> 'k" where
  "op_key (Add k d) = k"
| "op_key (Remove k) = k"

locale access_store =
  fixes member :: "'s \<Rightarrow> 'k \<Rightarrow> bool" and add :: "'k \<Rightarrow> 'd \<Rightarrow> 's \<Rightarrow> 's" and remove :: "'k \<Rightarrow> 's \<Rightarrow> 's"
  assumes member_add: "member (add k d s) k' \<longleftrightarrow> k' = k \<or> member s k'"
    and member_remove: "member (remove k s) k' \<longleftrightarrow> k' \<noteq> k \<and> member s k'"
begin

definition run :: "('k, 'd) store_op list \<Rightarrow> 's \<Rightarrow> 's" where
  "run ops s = fold (\<lambda>opn s. case opn of Add k d \<Rightarrow> add k d s | Remove k \<Rightarrow> remove k s) ops s"

lemma run_simps:
  "run [] s = s"
  "run (ops @ [opn]) s = (case opn of Add k d \<Rightarrow> add k d (run ops s) | Remove k \<Rightarrow> remove k (run ops s))"
  by (simp_all add: run_def split: store_op.splits)

lemma member_run:
  "member (run ops s) k \<longleftrightarrow>
    (case filter (\<lambda>opn. op_key opn = k) ops of
       [] \<Rightarrow> member s k
     | opn # opns \<Rightarrow> (\<exists>d. last (opn # opns) = Add k d))"
proof (induction ops rule: rev_induct)
  case (snoc opn ops)
  show ?case
  proof (cases opn)
    case (Add k' d)
    with snoc show ?thesis
      by (cases "k = k'") (auto simp: run_simps member_add split: list.splits)
  next
    case (Remove k')
    with snoc show ?thesis
      by (cases "k = k'") (auto simp: run_simps member_remove split: list.splits)
  qed
qed (simp add: run_simps)

end

lemma is_allowed_simps [simp]:
  "is_allowed (add_ip ip w) ip' \<longleftrightarrow> ip' = ip \<or> is_allowed w ip'"
  "is_allowed (remove_ip ip w) ip' \<longleftrightarrow> ip' \<noteq> ip \<and> is_allowed w ip'"
  "is_allowed (update_whitelist ips w) ip' \<longleftrightarrow> ip' \<in> ips"
  by (auto simp: is_allowed_def add_ip_def remove_ip_def update_whitelist_def)

lemma validate_add [simp]:
  "validate_key (add_key k d ks) k' = (if k' = k then Some d else validate_key ks k')"
  by (simp add: validate_key_def add_key_def alist_simps)

lemma validate_revoke [simp]:
  "validate_key (snd (revoke_key k ks)) k' = (if k' = k then None else validate_key ks k')"
  by (auto simp: validate_key_def revoke_key_def Let_def alist_simps)

interpretation whitelist_store: access_store is_allowed "\<lambda>ip (_ :: unit). add_ip ip" remove_ip
  by unfold_locales auto

interpretation key_store: access_store "\<lambda>ks k. validate_key ks k \<noteq> None" add_key
  "\<lambda>k ks. snd (revoke_key k ks)"
  by unfold_locales auto

lemma find_filter: "find P (filter Q xs) = find (\<lambda>x. P x \<and> Q x) xs"
  by (induction xs) auto

lemma validate_new_store:
  "validate_key (new_key_store es) k = map_option entry_data (find (\<lambda>e. ak_key e = k \<and> \<not> ak_revoked e) (rev es))"
proof -
  have "map_of (map (\<lambda>e. (ak_key e, entry_data e)) xs) k = map_option entry_data (find (\<lambda>e. ak_key e = k) xs)" for xs
    by (induction xs) auto
  then show ?thesis
    by (simp add: validate_key_def new_key_store_def alist_simps rev_filter find_filter)
qed

lemma find_not_None: "find P xs \<noteq> None \<longleftrightarrow> (\<exists>x \<in> set xs. P x)"
  by (induction xs) auto

lemma new_store_valid_iff:
  "validate_key (new_key_store es) k \<noteq> None \<longleftrightarrow> (\<exists>e \<in> set es. ak_key e = k \<and> \<not> ak_revoked e)"
  by (simp add: validate_new_store find_not_None del: not_None_eq)

lemma reload_keys_eq: "reload_keys es ks = new_key_store es"
  by (simp add: reload_keys_def new_key_store_def)

lemma distinct_new_store: "distinct_keys (new_key_store es)"
  by (simp add: new_key_store_def distinct_insert_all)

lemma hex_digit_inj: "m < 16 \<Longrightarrow> n < 16 \<Longrightarrow> hex_digit m = hex_digit n \<Longrightarrow> m = n"
proof -
  have "distinct ''0123456789abcdef''" by simp
  then show "m < 16 \<Longrightarrow> n < 16 \<Longrightarrow> hex_digit m = hex_digit n \<Longrightarrow> m = n"
    unfolding hex_digit_def by (simp add: nth_eq_iff_index_eq)
qed

lemma hex_byte_inj: "hex_byte a = hex_byte b \<Longrightarrow> a = b"
proof -
  assume h: "hex_byte a = hex_byte b"
  have lt: "unat a div 16 < 16" "unat b div 16 < 16"
    using unsigned_less [of a, where 'a = nat] unsigned_less [of b, where 'a = nat] by auto
  have "unat a div 16 = unat b div 16" "unat a mod 16 = unat b mod 16"
    using h hex_digit_inj [OF lt] hex_digit_inj [of "unat a mod 16" "unat b mod 16"]
    by (auto simp: hex_byte_def)
  then have "unat a = unat b" by (metis div_mult_mod_eq)
  then show "a = b" by (rule word_unat_eq_iff [THEN iffD2])
qed

lemma length_hex_byte [simp]: "length (hex_byte b) = 2"
  by (simp add: hex_byte_def)

lemma hex_bytes_inj:
  "concat (map hex_byte as) = concat (map hex_byte bs) \<Longrightarrow> as = bs"
proof (induction as arbitrary: bs)
  case Nil
  then show ?case by (cases bs) (auto simp: hex_byte_def)
next
  case (Cons a as)
  then obtain b bs' where bs: "bs = b # bs'" by (cases bs) (auto simp: hex_byte_def)
  with Cons.prems have "hex_byte a = hex_byte b" "concat (map hex_byte as) = concat (map hex_byte bs')"
    by (simp_all add: append_eq_append_conv)
  with Cons.IH bs hex_byte_inj show ?case by blast
qed

section \<open>Properties\<close>

fun run_whitelist :: "(ip_addr, unit) store_op list \<Rightarrow> ip_whitelist \<Rightarrow> ip_whitelist" where
  "run_whitelist [] w = w"
| "run_whitelist (Add ip d # ops) w = run_whitelist ops (add_ip ip w)"
| "run_whitelist (Remove ip # ops) w = run_whitelist ops (remove_ip ip w)"

fun run_keys :: "(string, api_key_data) store_op list \<Rightarrow> api_key_store \<Rightarrow> api_key_store" where
  "run_keys [] ks = ks"
| "run_keys (Add k d # ops) ks = run_keys ops (add_key k d ks)"
| "run_keys (Remove k # ops) ks = run_keys ops (snd (revoke_key k ks))"

lemma run_whitelist_eq: "run_whitelist ops w = whitelist_store.run ops w"
  by (induction ops w rule: run_whitelist.induct) (simp_all add: whitelist_store.run_def)

lemma run_keys_eq: "run_keys ops ks = key_store.run ops ks"
  by (induction ops ks rule: run_keys.induct) (simp_all add: key_store.run_def)

text \<open>Revocation is final: after any log of whitelist additions and removals an
  address is admitted exactly if its last entry in the log is an addition (or it has none and was
  admitted before).\<close>

theorem whitelist_last_op_wins:
  "is_allowed (run_whitelist ops w) ip \<longleftrightarrow>
    (case filter (\<lambda>opn. op_key opn = ip) ops of
       [] \<Rightarrow> is_allowed w ip
     | opn # opns \<Rightarrow> (\<exists>d. last (opn # opns) = Add ip d))"
  unfolding run_whitelist_eq by (rule whitelist_store.member_run)


text \<open>Generated keys carry all their randomness: different random bytes give different
  keys, and sixteen bytes give a key of 35 characters.\<close>

theorem generated_keys_injective:
  "inj generate_api_key \<and> length (generate_api_key bs) = 3 + 2 * length bs"
proof
  show "inj generate_api_key"
    by (rule injI) (simp add: generate_api_key_def hex_bytes_inj)
  have "length (concat (map hex_byte bs)) = 2 * length bs"
    by (induction bs) simp_all
  then show "length (generate_api_key bs) = 3 + 2 * length bs"
    by (simp add: generate_api_key_def)
qed

end
