(* ===== verification/Rate_Limiter.thy ===== *)
theory Rate_Limiter
  imports Config
begin

text \<open>
  Rate limiting (\<open>src/src/middleware/rate_limiter.rs\<close>): one pair of request/transaction limiters per
  client address and per API key, created on demand, rebuilt on reload. A single limiter is the
  \<open>governor\<close> crate's; it is an argument of the model, given by its constructor (from a quota) and its
  \<open>check\<close> (clock and state to verdict and new state). Additions wrap, as in a release build.
\<close>

section \<open>State\<close>

definition max_ip_limiters :: nat where
  "max_ip_limiters = 50000"

record quota =
  q_rate :: u32
  q_burst :: u32

record 'l governor =
  gov_direct :: "quota \<Rightarrow> 'l"
  gov_check :: "instant \<Rightarrow> 'l \<Rightarrow> bool \<times> 'l"

record 'l ip_limiters =
  il_rps :: 'l
  il_tps :: 'l

record 'l rate_limiter =
  lm_ip_limiters :: "(ip_addr \<times> 'l ip_limiters) list"
  lm_key_limiters :: "(string \<times> 'l ip_limiters) list"
  lm_config :: config

section \<open>Operations\<close>

definition limiter_quota :: "u32 \<Rightarrow> u32 \<Rightarrow> quota" where
  "limiter_quota rate_per_sec burst =
    \<lparr>q_rate = max rate_per_sec 1, q_burst = max (rate_per_sec + burst) 1\<rparr>"

definition create_limiter :: "'l governor \<Rightarrow> u32 \<Rightarrow> u32 \<Rightarrow> 'l" where
  "create_limiter gov rate_per_sec burst = gov_direct gov (limiter_quota rate_per_sec burst)"

definition make_limiters :: "'l governor \<Rightarrow> u32 \<Rightarrow> u32 \<Rightarrow> u32 \<Rightarrow> u32 \<Rightarrow> 'l ip_limiters" where
  "make_limiters gov rps tps burst_rps burst_tps =
    \<lparr>il_rps = create_limiter gov rps burst_rps, il_tps = create_limiter gov tps burst_tps\<rparr>"

abbreviation unwrap_or :: "'a option \<Rightarrow> 'a \<Rightarrow> 'a" where
  "unwrap_or x d \<equiv> (case x of Some v \<Rightarrow> v | None \<Rightarrow> d)"

definition whitelist_limiters :: "'l governor \<Rightarrow> config \<Rightarrow> whitelist_entry \<Rightarrow> 'l ip_limiters" where
  "whitelist_limiters gov c e =
    make_limiters gov (unwrap_or (we_rps e) (rl_default_rps (cfg_rate_limits c)))
      (unwrap_or (we_tps e) (rl_default_tps (cfg_rate_limits c)))
      (unwrap_or (we_burst_rps e) (rl_default_burst_rps (cfg_rate_limits c)))
      (unwrap_or (we_burst_tps e) (rl_default_burst_tps (cfg_rate_limits c)))"

definition key_limiters :: "'l governor \<Rightarrow> config \<Rightarrow> api_key_entry \<Rightarrow> 'l ip_limiters" where
  "key_limiters gov c e =
    make_limiters gov (unwrap_or (ak_rps e) (rl_default_rps (cfg_rate_limits c)))
      (unwrap_or (ak_tps e) (rl_default_tps (cfg_rate_limits c)))
      (unwrap_or (ak_burst_rps e) (rl_default_burst_rps (cfg_rate_limits c)))
      (unwrap_or (ak_burst_tps e) (rl_default_burst_tps (cfg_rate_limits c)))"

definition new_rate_limiter :: "'l governor \<Rightarrow> config \<Rightarrow> 'l rate_limiter" where
  "new_rate_limiter gov c =
    \<lparr>lm_ip_limiters = insert_all we_ip (whitelist_limiters gov c) (cfg_whitelist c) [],
     lm_key_limiters =
       insert_all ak_key (key_limiters gov c) (filter (\<lambda>e. \<not> ak_revoked e) (cfg_api_keys c)) [],
     lm_config = c\<rparr>"

definition reload_limiters :: "'l governor \<Rightarrow> config \<Rightarrow> 'l rate_limiter \<Rightarrow> 'l rate_limiter" where
  "reload_limiters gov c s =
    (let s = s\<lparr>lm_config := c\<rparr>;
         s = s\<lparr>lm_ip_limiters := []\<rparr>;
         s = s\<lparr>lm_key_limiters := []\<rparr>;
         s = s\<lparr>lm_ip_limiters :=
               insert_all we_ip (whitelist_limiters gov c) (cfg_whitelist c) (lm_ip_limiters s)\<rparr>
     in s\<lparr>lm_key_limiters :=
            insert_all ak_key (key_limiters gov c) (filter (\<lambda>e. \<not> ak_revoked e) (cfg_api_keys c))
              (lm_key_limiters s)\<rparr>)"

definition get_or_create_limiters ::
    "'l governor \<Rightarrow> ip_addr \<Rightarrow> 'l rate_limiter \<Rightarrow> 'l ip_limiters \<times> 'l rate_limiter" where
  "get_or_create_limiters gov ip s =
    (case map_of (lm_ip_limiters s) ip of
       Some existing \<Rightarrow> (existing, s)
     | None \<Rightarrow>
         let c = lm_config s;
             limiters = make_limiters gov (get_ip_rps c ip) (get_ip_tps c ip)
                          (get_ip_burst_rps c ip) (get_ip_burst_tps c ip)
         in (limiters, s\<lparr>lm_ip_limiters := AList.update ip limiters (lm_ip_limiters s)\<rparr>))"

definition get_or_create_key_limiters ::
    "'l governor \<Rightarrow> string \<Rightarrow> 'l rate_limiter \<Rightarrow> 'l ip_limiters \<times> 'l rate_limiter" where
  "get_or_create_key_limiters gov key s =
    (case map_of (lm_key_limiters s) key of
       Some existing \<Rightarrow> (existing, s)
     | None \<Rightarrow>
         let rl = cfg_rate_limits (lm_config s);
             limiters = make_limiters gov (rl_default_rps rl) (rl_default_tps rl)
                          (rl_default_burst_rps rl) (rl_default_burst_tps rl)
         in (limiters, s\<lparr>lm_key_limiters := AList.update key limiters (lm_key_limiters s)\<rparr>))"

text \<open>
  The two limiter checks of a request: the request limiter first, then, for a transaction, the
  transaction limiter. \<open>Inl True\<close> is a transaction-rate rejection, \<open>Inl False\<close> a request-rate one.
\<close>

definition consume ::
    "'l governor \<Rightarrow> instant \<Rightarrow> bool \<Rightarrow> 'l ip_limiters \<Rightarrow> (bool + unit) \<times> 'l ip_limiters" where
  "consume gov now is_send_tx l =
    (case gov_check gov now (il_rps l) of
       (ok, rps) \<Rightarrow>
         let l = l\<lparr>il_rps := rps\<rparr>
         in if \<not> ok then (Inl False, l)
            else if is_send_tx
            then (case gov_check gov now (il_tps l) of
                    (ok, tps) \<Rightarrow>
                      let l = l\<lparr>il_tps := tps\<rparr>
                      in if \<not> ok then (Inl True, l) else (Inr (), l))
            else (Inr (), l))"

definition check ::
    "'l governor \<Rightarrow> instant \<Rightarrow> ip_addr \<Rightarrow> bool \<Rightarrow> 'l rate_limiter \<Rightarrow> (bool + unit) \<times> 'l rate_limiter" where
  "check gov now ip is_send_tx s =
    (if map_of (lm_ip_limiters s) ip = None \<and> length (lm_ip_limiters s) \<ge> max_ip_limiters
     then (Inl False, s)
     else
       (case get_or_create_limiters gov ip s of
          (limiters, s) \<Rightarrow>
            (case consume gov now is_send_tx limiters of
               (res, limiters) \<Rightarrow>
                 (res, s\<lparr>lm_ip_limiters := AList.update ip limiters (lm_ip_limiters s)\<rparr>))))"

definition check_rps ::
    "'l governor \<Rightarrow> instant \<Rightarrow> ip_addr \<Rightarrow> 'l rate_limiter \<Rightarrow> (unit + unit) \<times> 'l rate_limiter" where
  "check_rps gov now ip s =
    (if map_of (lm_ip_limiters s) ip = None \<and> length (lm_ip_limiters s) \<ge> max_ip_limiters
     then (Inl (), s)
     else
       (case get_or_create_limiters gov ip s of
          (limiters, s) \<Rightarrow>
            (case gov_check gov now (il_rps limiters) of
               (ok, rps) \<Rightarrow>
                 (if ok then Inr () else Inl (),
                  s\<lparr>lm_ip_limiters := AList.update ip (limiters\<lparr>il_rps := rps\<rparr>) (lm_ip_limiters s)\<rparr>))))"

definition check_by_key ::
    "'l governor \<Rightarrow> instant \<Rightarrow> string \<Rightarrow> bool \<Rightarrow> 'l rate_limiter \<Rightarrow> (bool + unit) \<times> 'l rate_limiter" where
  "check_by_key gov now key is_send_tx s =
    (case get_or_create_key_limiters gov key s of
       (limiters, s) \<Rightarrow>
         (case consume gov now is_send_tx limiters of
            (res, limiters) \<Rightarrow>
              (res, s\<lparr>lm_key_limiters := AList.update key limiters (lm_key_limiters s)\<rparr>)))"

definition check_rps_by_key ::
    "'l governor \<Rightarrow> instant \<Rightarrow> string \<Rightarrow> 'l rate_limiter \<Rightarrow> (unit + unit) \<times> 'l rate_limiter" where
  "check_rps_by_key gov now key s =
    (case get_or_create_key_limiters gov key s of
       (limiters, s) \<Rightarrow>
         (case gov_check gov now (il_rps limiters) of
            (ok, rps) \<Rightarrow>
              (if ok then Inr () else Inl (),
               s\<lparr>lm_key_limiters := AList.update key (limiters\<lparr>il_rps := rps\<rparr>) (lm_key_limiters s)\<rparr>)))"

section \<open>Lemmas\<close>

lemma get_or_create_limiters_cases:
  "get_or_create_limiters gov ip s =
    (let l = (case map_of (lm_ip_limiters s) ip of Some l \<Rightarrow> l
              | None \<Rightarrow> make_limiters gov (get_ip_rps (lm_config s) ip) (get_ip_tps (lm_config s) ip)
                          (get_ip_burst_rps (lm_config s) ip) (get_ip_burst_tps (lm_config s) ip))
     in (l, s\<lparr>lm_ip_limiters := AList.update ip l (lm_ip_limiters s)\<rparr>))"
  by (simp add: get_or_create_limiters_def Let_def update_triv split: option.splits)

lemma get_or_create_key_limiters_cases:
  "get_or_create_key_limiters gov k s =
    (let l = (case map_of (lm_key_limiters s) k of Some l \<Rightarrow> l
              | None \<Rightarrow> (let rl = cfg_rate_limits (lm_config s)
                   in make_limiters gov (rl_default_rps rl) (rl_default_tps rl)
                          (rl_default_burst_rps rl) (rl_default_burst_tps rl)))
     in (l, s\<lparr>lm_key_limiters := AList.update k l (lm_key_limiters s)\<rparr>))"
  by (simp add: get_or_create_key_limiters_def Let_def update_triv split: option.splits)

lemmas limiter_defs = get_or_create_limiters_cases get_or_create_key_limiters_cases
  check_def check_rps_def check_by_key_def check_rps_by_key_def Let_def case_prod_beta

lemma limiter_frames [frame_simps]:
  "lm_config (snd (check gov now ip tx s)) = lm_config s"
  "lm_key_limiters (snd (check gov now ip tx s)) = lm_key_limiters s"
  "lm_config (snd (check_rps gov now ip s)) = lm_config s"
  "lm_key_limiters (snd (check_rps gov now ip s)) = lm_key_limiters s"
  "lm_config (snd (check_by_key gov now k tx s)) = lm_config s"
  "lm_ip_limiters (snd (check_by_key gov now k tx s)) = lm_ip_limiters s"
  "lm_config (snd (check_rps_by_key gov now k s)) = lm_config s"
  "lm_ip_limiters (snd (check_rps_by_key gov now k s)) = lm_ip_limiters s"
  by (simp_all add: limiter_defs)

lemma check_other_ip:
  "ip' \<noteq> ip \<Longrightarrow> map_of (lm_ip_limiters (snd (check gov now ip tx s))) ip' = map_of (lm_ip_limiters s) ip'"
  "ip' \<noteq> ip \<Longrightarrow> map_of (lm_ip_limiters (snd (check_rps gov now ip s))) ip' = map_of (lm_ip_limiters s) ip'"
  "k' \<noteq> k \<Longrightarrow> map_of (lm_key_limiters (snd (check_by_key gov now k tx s))) k' = map_of (lm_key_limiters s) k'"
  "k' \<noteq> k \<Longrightarrow> map_of (lm_key_limiters (snd (check_rps_by_key gov now k s))) k' = map_of (lm_key_limiters s) k'"
  by (simp_all add: limiter_defs alist_simps)

text \<open>Calls of the middleware, and a run of them.\<close>

datatype limiter_call = CCheck ip_addr bool | CCheckRps ip_addr | CCheckKey string bool | CCheckRpsKey string

fun limiter_step :: "'l governor \<Rightarrow> instant \<times> limiter_call \<Rightarrow> 'l rate_limiter \<Rightarrow> 'l rate_limiter" where
  "limiter_step gov (now, CCheck ip tx) s = snd (check gov now ip tx s)"
| "limiter_step gov (now, CCheckRps ip) s = snd (check_rps gov now ip s)"
| "limiter_step gov (now, CCheckKey k tx) s = snd (check_by_key gov now k tx s)"
| "limiter_step gov (now, CCheckRpsKey k) s = snd (check_rps_by_key gov now k s)"

definition limiters_bounded :: "'l rate_limiter \<Rightarrow> bool" where
  "limiters_bounded s \<longleftrightarrow>
     length (lm_ip_limiters s) \<le> max max_ip_limiters (length (cfg_whitelist (lm_config s)))"

lemma limiter_step_config [simp]: "lm_config (limiter_step gov call s) = lm_config s"
  by (cases "(gov, call, s)" rule: limiter_step.cases) (simp_all add: frame_simps)

lemma bounded_step: "limiters_bounded s \<Longrightarrow> limiters_bounded (limiter_step gov call s)"
  by (cases "(gov, call, s)" rule: limiter_step.cases)
    (auto simp: limiters_bounded_def limiter_defs length_update map_of_None_iff
      dom_update split: if_splits)

lemma bounded_new: "limiters_bounded (new_rate_limiter gov c)"
  using length_insert_all [of we_ip "whitelist_limiters gov c" "cfg_whitelist c" "[]"]
  by (simp add: limiters_bounded_def new_rate_limiter_def)

lemma reload_eq_new: "reload_limiters gov c s = new_rate_limiter gov c"
  by (simp add: reload_limiters_def new_rate_limiter_def Let_def)

text \<open>The bound as a contract of the middleware's step relation.\<close>

definition limiter_init :: "'l governor \<Rightarrow> 'l rate_limiter \<Rightarrow> bool" where
  "limiter_init gov s \<longleftrightarrow> (\<exists>c. s = new_rate_limiter gov c)"

definition limiter_trans :: "'l governor \<Rightarrow> 'l rate_limiter \<Rightarrow> 'l rate_limiter \<Rightarrow> bool" where
  "limiter_trans gov s t \<longleftrightarrow>
     (\<exists>call. t = limiter_step gov call s) \<or> (\<exists>c. t = reload_limiters gov c s)"

interpretation limiter_bound: step_invariant "limiter_init gov" "limiter_trans gov" limiters_bounded for gov
  by unfold_locales (auto simp: limiter_init_def limiter_trans_def bounded_new bounded_step reload_eq_new)

lemma find_map_of: "map_of (map (\<lambda>x. (k x, v x)) xs) i = map_option v (find (\<lambda>x. k x = i) xs)"
  by (induction xs) auto

lemma find_rev_distinct: "distinct (map k xs) \<Longrightarrow> find (\<lambda>x. k x = i) (rev xs) = find (\<lambda>x. k x = i) xs"
proof (induction xs)
  case (Cons a xs)
  have app: "find P (ys @ zs) = (case find P ys of Some y \<Rightarrow> Some y | None \<Rightarrow> find P zs)" for P ys zs
    by (induction ys) auto
  have "k a = i \<Longrightarrow> find (\<lambda>x. k x = i) xs = None"
    using Cons.prems unfolding find_None_iff by (auto simp: image_iff)
  with Cons show ?case by (auto simp: app split: option.splits)
qed simp

section \<open>Properties\<close>

text \<open>Memory bound: whatever clients call, one call after the other in any order and across any
  number of configuration reloads, the table of per-address limiters never grows beyond
  \<open>MAX_IP_LIMITERS\<close> entries (or the whitelist itself, if that is longer).\<close>

theorem limiter_table_bounded:
  assumes "reach (limiter_init gov) (limiter_trans gov) s"
  shows "length (lm_ip_limiters s) \<le> max 50000 (length (cfg_whitelist (lm_config s)))"
  using limiter_bound.inv_reach [OF assms] by (simp add: limiters_bounded_def max_ip_limiters_def)

text \<open>A governor for the examples: a countdown of the burst.\<close>

definition example_governor :: "nat governor" where
  "example_governor =
    \<lparr>gov_direct = (\<lambda>q. unat (q_burst q)),
     gov_check = (\<lambda>now n. if n = 0 then (False, 0) else (True, n - 1))\<rparr>"

theorem limiter_table_bounded_witness:
  "let s = snd (check example_governor 0 (V4 7) True (new_rate_limiter example_governor example_config))
   in length (lm_ip_limiters s) \<le> max 50000 (length (cfg_whitelist (lm_config s)))"
  unfolding Let_def
proof (rule limiter_table_bounded [of example_governor])
  let ?s0 = "new_rate_limiter example_governor example_config"
  have "reach (limiter_init example_governor) (limiter_trans example_governor) ?s0"
    by (rule reach.start) (auto simp: limiter_init_def)
  then show "reach (limiter_init example_governor) (limiter_trans example_governor)
      (snd (check example_governor 0 (V4 7) True ?s0))"
    by (rule reach.step) (metis limiter_step.simps(1) limiter_trans_def)
qed

text \<open>Isolation: a request of one address or key leaves the limiters of every other
  address and every other key as they were.\<close>

theorem limiter_isolation:
  "ip' \<noteq> ip \<Longrightarrow> map_of (lm_ip_limiters (snd (check gov now ip tx s))) ip' = map_of (lm_ip_limiters s) ip'
      \<and> lm_key_limiters (snd (check gov now ip tx s)) = lm_key_limiters s
      \<and> map_of (lm_ip_limiters (snd (check_rps gov now ip s))) ip' = map_of (lm_ip_limiters s) ip'
      \<and> lm_key_limiters (snd (check_rps gov now ip s)) = lm_key_limiters s"
  by (simp add: check_other_ip frame_simps)

theorem limiter_isolation_witness:
  "let s = new_rate_limiter example_governor example_config
   in map_of (lm_ip_limiters (snd (check example_governor 0 (V4 7) True s))) (V4 1) = map_of (lm_ip_limiters s) (V4 1)
    \<and> lm_key_limiters (snd (check example_governor 0 (V4 7) True s)) = lm_key_limiters s
    \<and> map_of (lm_ip_limiters (snd (check_rps example_governor 0 (V4 7) s))) (V4 1) = map_of (lm_ip_limiters s) (V4 1)
    \<and> lm_key_limiters (snd (check_rps example_governor 0 (V4 7) s)) = lm_key_limiters s"
  unfolding Let_def by (rule limiter_isolation) simp

text \<open>Verdicts: on a table that is not full, \<open>check\<close> rejects with the request-rate error
  exactly when the client's request limiter refuses, with the transaction-rate error exactly when the
  request limiter admits a transaction that the transaction limiter refuses, and admits otherwise;
  the transaction limiter is charged only for transactions the request limiter admitted.\<close>

theorem check_verdict:
  assumes "map_of (lm_ip_limiters s) ip = Some l"
  shows "fst (check gov now ip tx s) =
      (if \<not> fst (gov_check gov now (il_rps l)) then Inl False
       else if tx \<and> \<not> fst (gov_check gov now (il_tps l)) then Inl True else Inr ())
    \<and> map_of (lm_ip_limiters (snd (check gov now ip tx s))) ip = Some
       \<lparr>il_rps = snd (gov_check gov now (il_rps l)),
        il_tps = (if fst (gov_check gov now (il_rps l)) \<and> tx
                  then snd (gov_check gov now (il_tps l)) else il_tps l)\<rparr>"
  using assms by (cases l) (simp add: limiter_defs consume_def alist_simps)

theorem check_verdict_witness:
  "let s = new_rate_limiter example_governor example_config
   in fst (check example_governor 0 (V4 1) True s) = Inr ()
    \<and> map_of (lm_ip_limiters (snd (check example_governor 0 (V4 1) True s))) (V4 1)
        = Some \<lparr>il_rps = 5, il_tps = 0\<rparr>"
proof -
  have "map_of (lm_ip_limiters (new_rate_limiter example_governor example_config)) (V4 1)
      = Some \<lparr>il_rps = 6, il_tps = 1\<rparr>"
    by (simp add: new_rate_limiter_def example_config_def whitelist_limiters_def make_limiters_def
        create_limiter_def limiter_quota_def example_governor_def max_def word_le_nat_alt)
  from check_verdict [OF this, of example_governor 0 True] show ?thesis
    by (simp add: example_governor_def Let_def)
qed

text \<open>Reload and first use agree: when the whitelist names each address once, the
  limiter that a reload installs for a whitelisted address is the one first use would create from
  the same configuration. (With a duplicate address they differ: reload keeps the last entry, the
  lookup takes the first.)\<close>

theorem reload_matches_first_use:
  assumes "distinct (map we_ip (cfg_whitelist c))" and "ip \<in> whitelist_set c"
  shows "map_of (lm_ip_limiters (reload_limiters gov c s)) ip
    = Some (fst (get_or_create_limiters gov ip (s\<lparr>lm_config := c, lm_ip_limiters := []\<rparr>)))"
proof -
  obtain e where e: "find (\<lambda>w. we_ip w = ip) (cfg_whitelist c) = Some e"
    using assms(2) by (cases "find (\<lambda>w. we_ip w = ip) (cfg_whitelist c)")
      (auto simp: find_None_iff whitelist_set_def)
  then have "map_of (lm_ip_limiters (reload_limiters gov c s)) ip = Some (whitelist_limiters gov c e)"
    using assms(1) by (simp add: reload_eq_new new_rate_limiter_def alist_simps find_map_of find_rev_distinct)
  moreover have "we_ip e = ip" using e by (auto simp: find_Some_iff)
  ultimately show ?thesis
    using e by (simp add: limiter_defs whitelist_limiters_def get_ip_rps_def get_ip_tps_def
        get_ip_burst_rps_def get_ip_burst_tps_def)
qed

theorem reload_matches_first_use_witness:
  "map_of (lm_ip_limiters (reload_limiters example_governor example_config
       (new_rate_limiter example_governor example_config))) (V4 1)
    = Some (fst (get_or_create_limiters example_governor (V4 1)
       ((new_rate_limiter example_governor example_config)\<lparr>lm_config := example_config, lm_ip_limiters := []\<rparr>)))"
  by (rule reload_matches_first_use) (simp_all add: example_config_def whitelist_set_def)

text \<open>A duplicate whitelist entry makes the two disagree.\<close>

lemma reload_differs_on_duplicates:
  "\<exists>c. map_of (lm_ip_limiters (reload_limiters example_governor c s)) (V4 1)
     \<noteq> Some (fst (get_or_create_limiters example_governor (V4 1) (s\<lparr>lm_config := c, lm_ip_limiters := []\<rparr>)))"
proof
  let ?c = "example_config\<lparr>cfg_whitelist := cfg_whitelist example_config @
    [\<lparr>we_ip = V4 1, we_label = [], we_rps = Some 9, we_tps = None, we_burst_rps = None, we_burst_tps = None\<rparr>]\<rparr>"
  show "map_of (lm_ip_limiters (reload_limiters example_governor ?c s)) (V4 1)
     \<noteq> Some (fst (get_or_create_limiters example_governor (V4 1) (s\<lparr>lm_config := ?c, lm_ip_limiters := []\<rparr>)))"
    by (simp add: reload_eq_new new_rate_limiter_def example_config_def limiter_defs whitelist_limiters_def
        get_ip_rps_def get_ip_tps_def get_ip_burst_rps_def get_ip_burst_tps_def make_limiters_def
        create_limiter_def limiter_quota_def example_governor_def max_def word_le_nat_alt)
qed

text \<open>Quotas: the quota handed to the governor never has a zero rate or burst (so
  \<open>NonZeroU32::new\<close> never panics), and when \<open>rate + burst\<close> fits 32 bits the burst size is at least
  the rate.\<close>

theorem limiter_quota_bounds:
  "q_rate (limiter_quota r b) \<noteq> 0 \<and> q_burst (limiter_quota r b) \<noteq> 0
   \<and> (unat r + unat b < 2 ^ 32 \<longrightarrow> q_rate (limiter_quota r b) \<le> q_burst (limiter_quota r b))"
proof -
  have m: "max x 1 \<noteq> 0" for x :: u32 by (auto simp: max_def)
  have "r \<le> r + b" if "unat r + unat b < 2 ^ 32"
    using that by (simp add: word_le_nat_alt unat_word_ariths)
  then show ?thesis using m by (auto simp: limiter_quota_def le_max_iff_disj)
qed

theorem limiter_quota_bounds_witness:
  "q_rate (limiter_quota 200 20) \<le> q_burst (limiter_quota 200 20)"
  using limiter_quota_bounds [of 200 20] by simp

end
