(* ===== verification/Http_Rpc.thy ===== *)
theory Http_Rpc
  imports Router Stats Access_Store Rate_Limiter
begin

text \<open>
  The JSON-RPC front end (\<open>src/src/proxy/http_rpc.rs\<close>) and the WebSocket front end
  (\<open>src/src/proxy/websocket.rs\<close>): authentication, body limit, classification by byte search, rate
  limiting, statistics and routing, as one state-passing function per connection or request. The
  shared components are the record \<open>proxy\<close>; clock readings, the HTTP client, the order in which
  fan-out answers arrive and the WebSocket peers' behaviour are inputs.
\<close>

section \<open>Shared state\<close>

record 'l proxy =
  px_router :: router
  px_whitelist :: ip_whitelist
  px_keys :: api_key_store
  px_limiter :: "'l rate_limiter"
  px_stats :: stats

section \<open>Classification\<close>

definition max_body_size :: nat where
  "max_body_size = 1024 * 1024"

datatype rpc_method = SendTransaction | SendTransactionBatch | HeavyReadRpc | ReadRpc

text \<open>\<open>slice::windows\<close>: all contiguous windows of a length, left to right.\<close>

definition windows :: "nat \<Rightarrow> 'a list \<Rightarrow> 'a list list" where
  "windows n xs = (if n \<le> length xs then map (\<lambda>i. take n (drop i xs)) [0..<Suc (length xs - n)] else [])"

definition memchr_find :: "bytes \<Rightarrow> bytes \<Rightarrow> bool" where
  "memchr_find haystack needle =
    (if needle = [] \<or> length haystack < length needle then False
     else list_ex (\<lambda>window. window = needle) (windows (length needle) haystack))"

definition classify_rpc :: "bytes \<Rightarrow> rpc_method" where
  "classify_rpc body =
    (if memchr_find body ''sendTransactionBatch'' then SendTransactionBatch
     else if memchr_find body ''sendTransaction'' then SendTransaction
     else if memchr_find body ''getProgramAccounts''
       \<or> memchr_find body ''getTokenAccountsByOwner''
       \<or> memchr_find body ''getTokenAccountsByDelegate''
       \<or> memchr_find body ''getTokenLargestAccounts''
       \<or> memchr_find body ''getLargestAccounts''
       \<or> memchr_find body ''getSupply''
     then HeavyReadRpc
     else ReadRpc)"

text \<open>A body that could not be collected is \<open>Inl\<close>.\<close>

definition read_body :: "unit + bytes \<Rightarrow> unit + bytes" where
  "read_body body =
    (case body of
       Inl e \<Rightarrow> Inl ()
     | Inr b \<Rightarrow> if length b > max_body_size then Inl () else Inr b)"

definition json_int :: "int \<Rightarrow> json" where
  "json_int i = (if i < 0 then JNegInt i else JPosInt (of_int i))"

definition json_error_response :: "u16 \<Rightarrow> string \<Rightarrow> response" where
  "json_error_response status message =
    \<lparr>rs_status = status, rs_headers = json_headers,
     rs_body = Json (JObject
       [(''jsonrpc'', JString ''2.0''),
        (''error'', JObject [(''code'', json_int (- uint status)), (''message'', JString message)]),
        (''id'', JNull)])\<rparr>"

section \<open>JSON-RPC requests\<close>

definition adjust_rpc_conns :: "ip_addr \<Rightarrow> u64 \<Rightarrow> stats \<Rightarrow> stats" where
  "adjust_rpc_conns ip d s =
    modify_ip ip (\<lambda>x. x\<lparr>is_active_rpc_conns := is_active_rpc_conns x + d\<rparr>) s"

text \<open>Routing by method; the last component is the router with its advanced counter.\<close>

definition route_method ::
    "http_client \<Rightarrow> (node_entry list \<Rightarrow> node_entry list) \<Rightarrow> rpc_method \<Rightarrow> router \<Rightarrow> bytes
     \<Rightarrow> ((string + response) \<times> node_entry list) \<times> router" where
  "route_method cl arrive m r body =
    (case m of
       SendTransaction \<Rightarrow> (fan_out_send_tx cl arrive r body, r)
     | SendTransactionBatch \<Rightarrow> (fan_out_send_tx cl arrive r body, r)
     | HeavyReadRpc \<Rightarrow> forward_heavy_rpc cl r body
     | ReadRpc \<Rightarrow> (forward_read_rpc cl r body, r))"

definition rate_limit_request ::
    "'l governor \<Rightarrow> instant \<Rightarrow> ip_addr \<Rightarrow> string option \<Rightarrow> bool \<Rightarrow> bool \<Rightarrow> 'l rate_limiter
     \<Rightarrow> (bool + unit) \<times> 'l rate_limiter" where
  "rate_limit_request gov now ip api_key authed_by_key is_send_tx limiter =
    (case api_key of
       Some key \<Rightarrow> if authed_by_key then check_by_key gov now key is_send_tx limiter else (Inr (), limiter)
     | None \<Rightarrow> check gov now ip is_send_tx limiter)"

definition rate_limit_message :: "bool \<Rightarrow> string" where
  "rate_limit_message is_tps =
    (if is_tps then ''TPS rate limit exceeded'' else ''RPS rate limit exceeded'')"

record http_env =
  he_client :: http_client
  he_arrive :: "node_entry list \<Rightarrow> node_entry list"
  he_now :: instant
  he_now_ms :: u64

text \<open>The response, the nodes contacted, and the state afterwards.\<close>

definition handle_request ::
    "'l governor \<Rightarrow> http_env \<Rightarrow> ip_addr \<Rightarrow> string option \<Rightarrow> unit + bytes \<Rightarrow> 'l proxy
     \<Rightarrow> (response \<times> node_entry list) \<times> 'l proxy" where
  "handle_request gov env client_ip api_key body s =
    (let authed_by_key = Option.bind api_key (validate_key (px_keys s))
     in if \<not> is_allowed (px_whitelist s) client_ip \<and> authed_by_key = None
        then ((json_error_response 403 ''Unauthorized'', []), s)
        else
          (case read_body body of
             Inl _ \<Rightarrow> ((json_error_response 400 ''Request body too large'', []), s)
           | Inr body_bytes \<Rightarrow>
               let method = classify_rpc body_bytes;
                   is_send_tx = (method = SendTransaction \<or> method = SendTransactionBatch)
               in (case rate_limit_request gov (he_now env) client_ip api_key (authed_by_key \<noteq> None)
                         is_send_tx (px_limiter s) of
                     (Inl is_tps, limiter) \<Rightarrow>
                       let s = s\<lparr>px_limiter := limiter\<rparr>;
                           s = (if api_key = None
                                then s\<lparr>px_stats := record_rate_limited client_ip (px_stats s)\<rparr> else s)
                       in ((json_error_response 429 (rate_limit_message is_tps), []), s)
                   | (Inr _, limiter) \<Rightarrow>
                       let s = s\<lparr>px_limiter := limiter\<rparr>;
                           s = s\<lparr>px_stats := record_rpc (he_now_ms env) client_ip is_send_tx (px_stats s)\<rparr>;
                           s = s\<lparr>px_stats := adjust_rpc_conns client_ip 1 (px_stats s)\<rparr>
                       in (case route_method (he_client env) (he_arrive env) method (px_router s) body_bytes of
                             ((result, contacted), router) \<Rightarrow>
                               let s = s\<lparr>px_router := router\<rparr>;
                                   (resp, s) =
                                     (case result of
                                        Inr resp \<Rightarrow> (resp, s)
                                      | Inl e \<Rightarrow> (json_error_response 502 e,
                                                s\<lparr>px_stats := record_error client_ip (px_stats s)\<rparr>))
                               in ((resp, contacted),
                                   s\<lparr>px_stats := adjust_rpc_conns client_ip (- 1) (px_stats s)\<rparr>)))))"

section \<open>WebSocket connections\<close>

datatype ws_message = WsText | WsBinary | WsPing | WsPong | WsClose | WsFrame

datatype ws_end =
    WsRejected \<comment> \<open>address not whitelisted\<close>
  | WsRateLimited
  | WsNoNode
  | WsAcceptFailed
  | WsConnectFailed
  | WsFinished

text \<open>
  The peers' behaviour: whether the handshakes succeed, and what the upstream stream delivers (\<open>Inl\<close>
  an error) until one of the two copy directions ends.
\<close>

record ws_peers =
  wp_accept_ok :: bool
  wp_connect_ok :: bool
  wp_upstream :: "(unit + ws_message) list"

definition adjust_ws_conns :: "ip_addr \<Rightarrow> u64 \<Rightarrow> stats \<Rightarrow> stats" where
  "adjust_ws_conns ip d s = modify_ip ip (\<lambda>x. x\<lparr>is_active_ws_conns := is_active_ws_conns x + d\<rparr>) s"

fun count_ws_message :: "ip_addr \<Rightarrow> unit + ws_message \<Rightarrow> stats \<Rightarrow> stats" where
  "count_ws_message ip (Inl _) s = s"
| "count_ws_message ip (Inr m) s =
    (if m = WsPing \<or> m = WsPong \<or> m = WsClose then s
     else modify_ip ip (\<lambda>x. x\<lparr>is_total_ws_messages := is_total_ws_messages x + 1\<rparr>) s)"

definition handle_connection ::
    "'l governor \<Rightarrow> instant \<Rightarrow> ws_peers \<Rightarrow> ip_addr \<Rightarrow> 'l proxy \<Rightarrow> ws_end \<times> 'l proxy" where
  "handle_connection gov now peers client_ip s =
    (if \<not> is_allowed (px_whitelist s) client_ip then (WsRejected, s)
     else
       (case check_rps gov now client_ip (px_limiter s) of
          (Inl _, limiter) \<Rightarrow>
            (WsRateLimited, s\<lparr>px_limiter := limiter, px_stats := record_rate_limited client_ip (px_stats s)\<rparr>)
        | (Inr _, limiter) \<Rightarrow>
            let s = s\<lparr>px_limiter := limiter\<rparr>
            in (case pick_ws_node (px_router s) of
                  None \<Rightarrow> (WsNoNode, s)
                | Some node \<Rightarrow>
                    if \<not> wp_accept_ok peers then (WsAcceptFailed, s)
                    else
                      let s = s\<lparr>px_stats := adjust_ws_conns client_ip 1 (px_stats s)\<rparr>
                      in if \<not> wp_connect_ok peers then (WsConnectFailed, s)
                         else
                           let s = s\<lparr>px_stats := fold (count_ws_message client_ip) (wp_upstream peers) (px_stats s)\<rparr>
                           in (WsFinished, s\<lparr>px_stats := adjust_ws_conns client_ip (- 1) (px_stats s)\<rparr>))))"

section \<open>Lemmas\<close>

lemma windows_member: "w \<in> set (windows n xs) \<longleftrightarrow> length w = n \<and> (\<exists>pre post. xs = pre @ w @ post)"
proof
  assume "w \<in> set (windows n xs)"
  then have "n \<le> length xs" "w \<in> (\<lambda>i. take n (drop i xs)) ` {0..<Suc (length xs - n)}"
    by (simp_all add: windows_def del: upt_Suc split: if_splits)
  then obtain i where "n \<le> length xs" "i \<le> length xs - n" "w = take n (drop i xs)" by (auto simp: less_Suc_eq_le)
  then show "length w = n \<and> (\<exists>pre post. xs = pre @ w @ post)"
    using append_take_drop_id [of i xs] append_take_drop_id [of n "drop i xs"] by (metis add_le_imp_le_diff
        diff_le_self le_add_diff_inverse length_drop length_take min.absorb2 nat_add_left_cancel_le add.commute)
next
  assume "length w = n \<and> (\<exists>pre post. xs = pre @ w @ post)"
  then obtain pre post where "length w = n" "xs = pre @ w @ post" by blast
  then show "w \<in> set (windows n xs)"
    by (auto simp: windows_def simp del: upt_Suc intro!: image_eqI [of _ _ "length pre"])
qed

lemma memchr_find_sublist: "memchr_find h n \<longleftrightarrow> n \<noteq> [] \<and> sublist n h"
proof -
  have "list_ex (\<lambda>w. w = n) (windows (length n) h) \<longleftrightarrow> sublist n h"
    by (simp add: list_ex_iff windows_member sublist_def)
  then show ?thesis
    using sublist_length_le [of n h] by (auto simp: memchr_find_def not_less)
qed

lemma classify_send_tx:
  "classify_rpc b \<in> {SendTransaction, SendTransactionBatch} \<longleftrightarrow> sublist ''sendTransaction'' b"
proof -
  have "''sendTransactionBatch'' = ''sendTransaction'' @ ''Batch''" by simp
  then have "sublist ''sendTransactionBatch'' b \<Longrightarrow> sublist ''sendTransaction'' b"
    unfolding sublist_def by (metis append.assoc)
  then have "memchr_find b ''sendTransactionBatch'' \<Longrightarrow> memchr_find b ''sendTransaction''"
    unfolding memchr_find_sublist by blast
  then have "classify_rpc b \<in> {SendTransaction, SendTransactionBatch} \<longleftrightarrow> memchr_find b ''sendTransaction''"
    by (simp add: classify_rpc_def)
  then show ?thesis unfolding memchr_find_sublist by blast
qed

lemma adjust_rpc_entry:
  "ip_entry i (adjust_rpc_conns ip d s) =
    (if i = ip then (ip_entry ip s)\<lparr>is_active_rpc_conns := is_active_rpc_conns (ip_entry ip s) + d\<rparr>
     else ip_entry i s)"
  by (simp add: adjust_rpc_conns_def)

lemma record_error_entry:
  "ip_entry i (record_error ip s) =
    (if i = ip then (ip_entry ip s)\<lparr>is_error_count := is_error_count (ip_entry ip s) + 1\<rparr>
     else ip_entry i s)"
  by (simp add: record_error_def)

lemma record_rate_limited_entry:
  "ip_entry i (record_rate_limited ip s) =
    (if i = ip then (ip_entry ip s)\<lparr>is_rate_limited_count := is_rate_limited_count (ip_entry ip s) + 1\<rparr>
     else ip_entry i s)"
  by (simp add: record_rate_limited_def)

lemmas entry_simps = adjust_rpc_entry record_error_entry record_rate_limited_entry record_rpc_entry

lemma stats_inv_adjust: "stats_inv \<delta> s \<Longrightarrow> stats_inv \<delta> (adjust_rpc_conns ip d s)"
  unfolding adjust_rpc_conns_def by (rule stats_inv_modify) simp_all

lemma stats_inv_adjust_ws: "stats_inv \<delta> s \<Longrightarrow> stats_inv \<delta> (adjust_ws_conns ip d s)"
  unfolding adjust_ws_conns_def by (rule stats_inv_modify) simp_all

lemma stats_inv_count_ws: "stats_inv \<delta> s \<Longrightarrow> stats_inv \<delta> (count_ws_message ip m s)"
  by (cases "(ip, m, s)" rule: count_ws_message.cases) (auto intro: stats_inv_modify)

lemma stats_inv_count_all: "stats_inv \<delta> s \<Longrightarrow> stats_inv \<delta> (fold (count_ws_message ip) ms s)"
  by (induction ms arbitrary: s) (simp_all add: stats_inv_count_ws)

lemma count_all_entry:
  "is_active_ws_conns (ip_entry i (fold (count_ws_message ip) ms s)) = is_active_ws_conns (ip_entry i s)"
proof (induction ms arbitrary: s)
  case (Cons m ms)
  have "is_active_ws_conns (ip_entry i (count_ws_message ip m s)) = is_active_ws_conns (ip_entry i s)"
    by (cases m) auto
  with Cons show ?case by simp
qed simp

text \<open>Authorisation and admission of a request.\<close>

definition authorised :: "'l proxy \<Rightarrow> ip_addr \<Rightarrow> string option \<Rightarrow> bool" where
  "authorised s ip api_key \<longleftrightarrow>
     is_allowed (px_whitelist s) ip \<or> (\<exists>k. api_key = Some k \<and> validate_key (px_keys s) k \<noteq> None)"

definition send_tx_body :: "bytes \<Rightarrow> bool" where
  "send_tx_body b \<longleftrightarrow> classify_rpc b = SendTransaction \<or> classify_rpc b = SendTransactionBatch"

definition admission ::
    "'l governor \<Rightarrow> http_env \<Rightarrow> ip_addr \<Rightarrow> string option \<Rightarrow> bytes \<Rightarrow> 'l proxy \<Rightarrow> bool + unit" where
  "admission gov env ip api_key b s =
    fst (rate_limit_request gov (he_now env) ip api_key
      (Option.bind api_key (validate_key (px_keys s)) \<noteq> None) (send_tx_body b) (px_limiter s))"

lemma authorised_iff:
  "authorised s ip api_key \<longleftrightarrow>
    \<not> (\<not> is_allowed (px_whitelist s) ip \<and> Option.bind api_key (validate_key (px_keys s)) = None)"
  by (cases api_key) (auto simp: authorised_def)

text \<open>The branches of \<open>handle_request\<close>, one equation each.\<close>

lemma handle_unauthorised:
  "\<not> authorised s ip api_key \<Longrightarrow>
   handle_request gov env ip api_key body s = ((json_error_response 403 ''Unauthorized'', []), s)"
  by (simp add: handle_request_def authorised_iff)

lemma handle_bad_body:
  "authorised s ip api_key \<Longrightarrow> read_body body = Inl u \<Longrightarrow>
   handle_request gov env ip api_key body s = ((json_error_response 400 ''Request body too large'', []), s)"
  by (auto simp: handle_request_def authorised_iff Let_def)

lemma handle_limited:
  assumes "authorised s ip api_key" "read_body body = Inr b" "admission gov env ip api_key b s = Inl is_tps"
  shows "fst (handle_request gov env ip api_key body s)
      = (json_error_response 429 (rate_limit_message is_tps), [])"
    and "px_stats (snd (handle_request gov env ip api_key body s))
      = (if api_key = None then record_rate_limited ip (px_stats s) else px_stats s)"
    and "px_router (snd (handle_request gov env ip api_key body s)) = px_router s"
  using assms
  by (auto simp: handle_request_def authorised_iff Let_def admission_def send_tx_body_def
      split: prod.splits sum.splits)

lemma handle_routed:
  assumes "authorised s ip api_key" "read_body body = Inr b" "admission gov env ip api_key b s = Inr u"
  shows "fst (handle_request gov env ip api_key body s) =
     (case fst (route_method (he_client env) (he_arrive env) (classify_rpc b) (px_router s) b) of
        (Inr resp, contacted) \<Rightarrow> (resp, contacted)
      | (Inl e, contacted) \<Rightarrow> (json_error_response 502 e, contacted))"
    and "px_stats (snd (handle_request gov env ip api_key body s)) =
     (let st = adjust_rpc_conns ip 1 (record_rpc (he_now_ms env) ip (send_tx_body b) (px_stats s));
          st = (case fst (fst (route_method (he_client env) (he_arrive env) (classify_rpc b) (px_router s) b)) of
                  Inr _ \<Rightarrow> st | Inl _ \<Rightarrow> record_error ip st)
      in adjust_rpc_conns ip (- 1) st)"
  using assms
  by (auto simp: handle_request_def authorised_iff Let_def admission_def send_tx_body_def
      split: prod.splits sum.splits)


lemma admission_cases:
  obtains (unauthorised) "\<not> authorised s ip api_key"
  | (bad_body) u where "authorised s ip api_key" "read_body body = Inl u"
  | (limited) b is_tps where "authorised s ip api_key" "read_body body = Inr b"
      "admission gov env ip api_key b s = Inl is_tps"
  | (routed) b where "authorised s ip api_key" "read_body body = Inr b"
      "admission gov env ip api_key b s = Inr ()"
  by (cases "authorised s ip api_key"; cases "read_body body"; cases "admission gov env ip api_key (projr (read_body body)) s")
    auto

lemma read_body_Inr: "read_body body = Inr b \<longleftrightarrow> body = Inr b \<and> length b \<le> max_body_size"
  by (auto simp: read_body_def split: sum.splits if_splits)

lemma handle_routed_entry:
  assumes "authorised s ip api_key" "read_body body = Inr b" "admission gov env ip api_key b s = Inr u"
  shows "stats_inv \<delta> (px_stats s) \<Longrightarrow> stats_inv \<delta> (px_stats (snd (handle_request gov env ip api_key body s)))"
    and "is_active_rpc_conns (ip_entry i (px_stats (snd (handle_request gov env ip api_key body s))))
      = is_active_rpc_conns (ip_entry i (px_stats s))"
    and "is_total_rpc_requests (ip_entry i (px_stats (snd (handle_request gov env ip api_key body s))))
      = is_total_rpc_requests (ip_entry i (px_stats s)) + (if i = ip then 1 else 0)"
  by (simp_all add: handle_routed(2) [OF assms] Let_def entry_simps stats_inv_adjust stats_inv_intros
      split: sum.splits)

section \<open>Properties\<close>


definition example_proxy :: "nat proxy" where
  "example_proxy =
    \<lparr>px_router = example_router, px_whitelist = new_whitelist (whitelist_set example_config),
     px_keys = new_key_store (cfg_api_keys example_config), px_limiter = new_rate_limiter example_governor example_config,
     px_stats = new_stats 0\<rparr>"

definition example_env :: http_env where
  "example_env = \<lparr>he_client = example_client, he_arrive = id, he_now = 0, he_now_ms = 7\<rparr>"

lemma example_authorised:
  "authorised example_proxy (V4 1) None" "\<not> authorised example_proxy (V4 2) None"
  by (simp_all add: authorised_def example_proxy_def new_whitelist_def is_allowed_def example_config_def
      whitelist_set_def)

lemma example_limiter:
  "map_of (lm_ip_limiters (new_rate_limiter example_governor example_config)) (V4 1)
    = Some \<lparr>il_rps = 6, il_tps = 1\<rparr>"
  by (simp add: new_rate_limiter_def example_config_def whitelist_limiters_def make_limiters_def
      create_limiter_def limiter_quota_def example_governor_def max_def word_le_nat_alt)

lemma example_admission: "admission example_governor example_env (V4 1) None ''{}'' example_proxy = Inr ()"
  using example_limiter
  by (simp add: admission_def rate_limit_request_def example_proxy_def limiter_defs consume_def
      example_governor_def)


text \<open>Request accounting: a request that is handled to its end, whatever the answer, leaves every
  client's gauge of active RPC connections as it found it and keeps the statistics consistent; it
  counts as one request of its own client exactly when it is authorised, small enough and admitted.\<close>

theorem request_accounting:
  assumes "stats_inv \<delta> (px_stats s)"
  shows "let st' = px_stats (snd (handle_request gov env ip api_key body s))
    in stats_inv \<delta> st'
     \<and> is_active_rpc_conns (ip_entry i st') = is_active_rpc_conns (ip_entry i (px_stats s))
     \<and> is_total_rpc_requests (ip_entry i st') = is_total_rpc_requests (ip_entry i (px_stats s))
         + (if i = ip \<and> authorised s ip api_key
              \<and> (\<exists>b. read_body body = Inr b \<and> admission gov env ip api_key b s = Inr ()) then 1 else 0)"
proof (cases rule: admission_cases [where s = s and ip = ip and api_key = api_key and body = body and gov = gov and env = env])
  case unauthorised
  then show ?thesis using assms by (simp add: handle_unauthorised Let_def)
next
  case bad_body
  then show ?thesis using assms by (simp add: handle_bad_body Let_def)
next
  case (limited b is_tps)
  then show ?thesis
    using assms handle_limited(2) [OF limited]
    by (simp add: Let_def entry_simps stats_inv_intros)
next
  case (routed b)
  then show ?thesis using assms by (simp add: handle_routed_entry [OF routed] Let_def)
qed

theorem request_accounting_witness:
  "is_total_rpc_requests (ip_entry (V4 1) (px_stats (snd
     (handle_request example_governor example_env (V4 1) None (Inr ''{}'') example_proxy)))) = 1"
proof -
  have "stats_inv 0 (px_stats example_proxy)" by (simp add: example_proxy_def stats_inv_new)
  from request_accounting [OF this, of example_governor example_env "V4 1" None "Inr ''{}''" "V4 1"]
  show ?thesis
    by (simp add: example_authorised example_admission read_body_def max_body_size_def Let_def)
      (simp add: example_proxy_def ip_entry_eq new_stats_def default_ip_stats_def)
qed

definition request_candidates :: "rpc_method \<Rightarrow> router \<Rightarrow> node_entry list" where
  "request_candidates m r =
    (if m = SendTransaction \<or> m = SendTransactionBatch then fan_out_targets r
     else filter node_healthy (rt_nodes r))"

definition request_attempt :: "http_client \<Rightarrow> rpc_method \<Rightarrow> bytes \<Rightarrow> node_entry \<Rightarrow> string + response" where
  "request_attempt cl m b n =
    (if m = SendTransaction \<or> m = SendTransactionBatch then forward_rpc_to cl n (fan_out_url n) b
     else forward_to_rpc cl b n)"

lemma route_policy:
  assumes "mset (arrive (fan_out_targets r)) = mset (fan_out_targets r)"
  shows "forward_policy (request_candidates m r) (request_attempt cl m b)
    (fst (fst (route_method cl arrive m r b))) (snd (fst (route_method cl arrive m r b)))"
  using fan_out_policy [of arrive r, OF assms] read_policy.forward_policy_axioms heavy_policy.forward_policy_axioms
  by (cases m) (simp_all add: request_candidates_def request_attempt_def [abs_def] route_method_def)

text \<open>Property C7. Availability across nodes: an admitted request of any kind is answered with the
  response of one of the cluster's nodes whenever one healthy candidate for it answers, and with
  502 exactly when every candidate fails.\<close>

theorem admitted_request_answered:
  fixes s :: "'l proxy" and b env
  defines "cands \<equiv> request_candidates (classify_rpc b) (px_router s)"
    and "attempt \<equiv> request_attempt (he_client env) (classify_rpc b) b"
  assumes "authorised s ip api_key" "length b \<le> max_body_size" "admission gov env ip api_key b s = Inr ()"
    and "mset (he_arrive env (fan_out_targets (px_router s))) = mset (fan_out_targets (px_router s))"
  shows "let resp = fst (fst (handle_request gov env ip api_key (Inr b) s))
    in if \<exists>n \<in> set cands. \<exists>r. attempt n = Inr r
       then \<exists>n \<in> set cands. attempt n = Inr resp
       else rs_status resp = 502"
proof -
  have rb: "read_body (Inr b) = Inr b" using assms(4) by (simp add: read_body_Inr)
  let ?rm = "route_method (he_client env) (he_arrive env) (classify_rpc b) (px_router s) b"
  note pol = route_policy [where arrive = "he_arrive env" and r = "px_router s", OF assms(6), of "classify_rpc b" "he_client env" b]
  have "fst (fst (handle_request gov env ip api_key (Inr b) s)) =
      (case fst (fst ?rm) of Inr r \<Rightarrow> r | Inl e \<Rightarrow> json_error_response 502 e)"
    unfolding handle_routed(1) [OF assms(3) rb assms(5)] by (auto split: prod.splits sum.splits)
  moreover have "(\<exists>e. fst (fst ?rm) = Inl e) \<longleftrightarrow> \<not> (\<exists>n \<in> set cands. \<exists>r. attempt n = Inr r)"
    using forward_policy.error_iff [OF pol] unfolding cands_def attempt_def
    by (metis obj_sumE sum.distinct(1))
  moreover have "fst (fst ?rm) = Inr r \<Longrightarrow> \<exists>n \<in> set cands. attempt n = Inr r" for r
    using forward_policy.ok_from [OF pol] forward_policy.contacted_sub [OF pol]
    unfolding cands_def attempt_def by blast
  ultimately show ?thesis
    by (cases "fst (fst ?rm)") (auto simp: Let_def json_error_response_def)
qed

lemma example_attempts:
  "request_candidates (classify_rpc ''{}'') (px_router example_proxy) = rt_nodes example_router"
  "request_attempt (he_client example_env) (classify_rpc ''{}'') ''{}'' n =
    (if nc_id (ne_config n) = ''a'' then Inl ''Upstream a timeout after 8s''
     else Inr \<lparr>rs_status = 200, rs_headers = json_headers, rs_body = Raw ''ok''\<rparr>)"
proof -
  have c: "classify_rpc ''{}'' = ReadRpc" by code_simp
  show "request_candidates (classify_rpc ''{}'') (px_router example_proxy) = rt_nodes example_router"
    unfolding c by (simp add: request_candidates_def example_proxy_def example_router_defs is_healthy_def
        get_status_def from_u8_def)
  show "request_attempt (he_client example_env) (classify_rpc ''{}'') ''{}'' n =
    (if nc_id (ne_config n) = ''a'' then Inl ''Upstream a timeout after 8s''
     else Inr \<lparr>rs_status = 200, rs_headers = json_headers, rs_body = Raw ''ok''\<rparr>)"
    unfolding c by (simp add: request_attempt_def example_env_def forward_to_rpc_def forward_rpc_to_def
        example_router_defs)
qed

theorem admitted_request_answered_witness:
  "rs_status (fst (fst (handle_request example_governor example_env (V4 1) None (Inr ''{}'') example_proxy))) = 200"
proof -
  have arrive: "mset (he_arrive example_env (fan_out_targets (px_router example_proxy)))
      = mset (fan_out_targets (px_router example_proxy))" and len: "length ''{}'' \<le> max_body_size"
    by (simp_all add: max_body_size_def example_env_def)
  have some: "\<exists>n \<in> set (rt_nodes example_router). nc_id (ne_config n) \<noteq> ''a''"
    by (simp add: example_router_defs)
  show ?thesis
    using admitted_request_answered [where s = example_proxy and env = example_env,
        OF example_authorised(1) len example_admission arrive] some
    unfolding example_attempts
    by (simp add: Let_def split: if_splits) (metis response.select_convs(1))
qed

definition heavy_methods :: "bytes list" where
  "heavy_methods = [''getProgramAccounts'', ''getTokenAccountsByOwner'', ''getTokenAccountsByDelegate'',
     ''getTokenLargestAccounts'', ''getLargestAccounts'', ''getSupply'']"

text \<open>Classification: a request is fanned out as a transaction exactly when its body
  contains the method name as a contiguous substring, and is balanced as a heavy read exactly when
  it is not a transaction and names one of the six heavy methods.\<close>

theorem classification_spec:
  "(classify_rpc b \<in> {SendTransaction, SendTransactionBatch} \<longleftrightarrow> sublist ''sendTransaction'' b)
   \<and> (classify_rpc b = SendTransactionBatch \<longleftrightarrow> sublist ''sendTransactionBatch'' b)
   \<and> (classify_rpc b = HeavyReadRpc \<longleftrightarrow>
        \<not> sublist ''sendTransaction'' b \<and> (\<exists>m \<in> set heavy_methods. sublist m b))"
proof -
  have f: "m \<in> set (''sendTransactionBatch'' # ''sendTransaction'' # heavy_methods)
      \<Longrightarrow> sublist m b \<longleftrightarrow> memchr_find b m" for m
    unfolding memchr_find_sublist by (auto simp: heavy_methods_def)
  have batch: "classify_rpc b = SendTransactionBatch \<longleftrightarrow> memchr_find b ''sendTransactionBatch''"
    by (simp add: classify_rpc_def)
  have "(\<exists>m \<in> set heavy_methods. sublist m b) \<longleftrightarrow> (\<exists>m \<in> set heavy_methods. memchr_find b m)"
    using f by auto
  moreover have "classify_rpc b = HeavyReadRpc \<longleftrightarrow>
      classify_rpc b \<notin> {SendTransaction, SendTransactionBatch} \<and> (\<exists>m \<in> set heavy_methods. memchr_find b m)"
    by (simp add: classify_rpc_def heavy_methods_def)
  ultimately show ?thesis
    using classify_send_tx [of b] batch f [of "''sendTransactionBatch''"] by auto
qed

theorem classification_spec_witness:
  "classify_rpc ''{method:sendTransaction}'' = SendTransaction"
proof -
  have "sublist ''sendTransaction'' ''{method:sendTransaction}''"
    "\<not> sublist ''sendTransactionBatch'' ''{method:sendTransaction}''" by code_simp+
  with classification_spec [of "''{method:sendTransaction}''"] show ?thesis by blast
qed

text \<open>A client on the whitelist that also sends an unknown key is charged to no limiter at all.\<close>

lemma unknown_key_bypasses_limits:
  assumes "validate_key (px_keys s) k = None"
  shows "admission gov env ip (Some k) b s = Inr ()"
    and "is_allowed (px_whitelist s) ip \<Longrightarrow> px_limiter (snd (handle_request gov env ip (Some k) body s)) = px_limiter s"
  using assms
  by (auto simp: admission_def rate_limit_request_def handle_request_def Let_def
      split: sum.splits prod.splits)

text \<open>WebSocket admission and accounting: a connection reaches an upstream only for a
  whitelisted address within its request rate and when a healthy node exists, and a connection that
  runs to its end leaves the gauge of active connections as it found it. A connection whose upstream
  handshake fails leaves the gauge one too high.\<close>

theorem ws_connection_accounting:
  assumes "handle_connection gov now peers ip s = (e, s')" and "stats_inv \<delta> (px_stats s)"
  shows "stats_inv \<delta> (px_stats s')
    \<and> (e \<in> {WsConnectFailed, WsFinished} \<longrightarrow> is_allowed (px_whitelist s) ip
        \<and> fst (check_rps gov now ip (px_limiter s)) = Inr () \<and> pick_ws_node (px_router s) \<noteq> None)
    \<and> is_active_ws_conns (ip_entry i (px_stats s')) = is_active_ws_conns (ip_entry i (px_stats s))
        + (if e = WsConnectFailed \<and> i = ip then 1 else 0)"
proof -
  have limited: "is_active_ws_conns (ip_entry i (record_rate_limited ip st)) = is_active_ws_conns (ip_entry i st)"
    and up: "is_active_ws_conns (ip_entry i (adjust_ws_conns ip d st))
      = is_active_ws_conns (ip_entry i st) + (if i = ip then d else 0)" for st d i
    by (simp_all add: record_rate_limited_entry adjust_ws_conns_def)
  show ?thesis
    using assms
    by (auto simp: handle_connection_def Let_def limited up count_all_entry stats_inv_intros
        stats_inv_adjust_ws stats_inv_count_all split: if_splits prod.splits sum.splits option.splits)
qed

theorem ws_connection_accounting_witness:
  "let r = handle_connection example_governor 0
        \<lparr>wp_accept_ok = True, wp_connect_ok = False, wp_upstream = []\<rparr> (V4 1) example_proxy
   in fst r = WsConnectFailed \<and> is_active_ws_conns (ip_entry (V4 1) (px_stats (snd r))) = 1"
proof -
  let ?r = "handle_connection example_governor 0
    \<lparr>wp_accept_ok = True, wp_connect_ok = False, wp_upstream = []\<rparr> (V4 1) example_proxy"
  have "fst (check_rps example_governor 0 (V4 1) (px_limiter example_proxy)) = Inr ()"
    using example_limiter by (simp add: example_proxy_def limiter_defs consume_def example_governor_def)
  moreover have "pick_ws_node (px_router example_proxy) \<noteq> None"
    by (simp add: example_proxy_def pick_ws_node_def read_pick.pick_None_iff)
      (simp add: example_router_defs is_healthy_def get_status_def from_u8_def)
  ultimately have e: "fst ?r = WsConnectFailed"
    using example_authorised(1)
    by (auto simp: handle_connection_def authorised_def Let_def split: prod.splits sum.splits)
  have ok: "stats_inv 0 (px_stats example_proxy)" by (simp add: example_proxy_def stats_inv_new)
  have "?r = (WsConnectFailed, snd ?r)" using e by (metis prod.collapse)
  from ws_connection_accounting [OF this ok, of "V4 1"] e show ?thesis
    by (simp add: Let_def) (simp add: example_proxy_def new_stats_def ip_entry_eq default_ip_stats_def)
qed

end
