(* ===== verification/Dashboard.thy ===== *)
theory Dashboard
  imports Http_Rpc
begin

text \<open>
  The admin dashboard (\<open>src/src/dashboard/mod.rs\<close>, \<open>src/src/dashboard/handlers.rs\<close>): basic
  authentication with its own base64 decoder, and the handlers that read and change the shared
  configuration, whitelist, keys and limiters, as state-passing functions. Address parsing and
  printing, TOML printing, file system outcomes, random bytes and clocks are inputs. A handler's
  error is its HTTP status.
\<close>

section \<open>Basic authentication\<close>

definition b64_table :: string where
  "b64_table = ''ABCDEFGHIJKLMNOPQRSTUVWXYZabcdefghijklmnopqrstuvwxyz0123456789+/''"

fun b64_position :: "char \<Rightarrow> string \<Rightarrow> nat option" where
  "b64_position b [] = None"
| "b64_position b (c # cs) = (if c = b then Some 0 else map_option Suc (b64_position b cs))"

fun b64_loop :: "string \<Rightarrow> u32 \<Rightarrow> nat \<Rightarrow> bytes \<Rightarrow> bytes option" where
  "b64_loop [] buf bits out = Some out"
| "b64_loop (b # input) buf bits out =
    (if b = CHR ''='' then Some out
     else (case b64_position b b64_table of
             None \<Rightarrow> None
           | Some val \<Rightarrow>
               let buf = or (push_bit 6 buf) (of_nat val);
                   bits = bits + 6
               in if bits \<ge> 8
                  then let bits = bits - 8;
                           out = out @ [char_of (unat (ucast (drop_bit bits buf) :: u8))];
                           buf = and buf (push_bit bits 1 - 1)
                       in b64_loop input buf bits out
                  else b64_loop input buf bits out))"

definition base64_decode :: "string \<Rightarrow> bytes option" where
  "base64_decode input = b64_loop input 0 0 []"

text \<open>\<open>String::from_utf8\<close> accepts exactly the well-formed byte sequences of the Unicode standard.\<close>

definition cont :: "nat \<Rightarrow> bool" where
  "cont b \<longleftrightarrow> 128 \<le> b \<and> b \<le> 191"

fun utf8_ok :: "nat list \<Rightarrow> bool" where
  "utf8_ok [] = True"
| "utf8_ok (a # bs) =
    (if a < 128 then utf8_ok bs
     else if 194 \<le> a \<and> a \<le> 223
     then (case bs of b # r \<Rightarrow> cont b \<and> utf8_ok r | _ \<Rightarrow> False)
     else if 224 \<le> a \<and> a \<le> 239
     then (case bs of
             b # c # r \<Rightarrow> cont b \<and> cont c \<and> (a = 224 \<longrightarrow> 160 \<le> b) \<and> (a = 237 \<longrightarrow> b \<le> 159) \<and> utf8_ok r
           | _ \<Rightarrow> False)
     else if 240 \<le> a \<and> a \<le> 244
     then (case bs of
             b # c # d # r \<Rightarrow> cont b \<and> cont c \<and> cont d \<and> (a = 240 \<longrightarrow> 144 \<le> b) \<and> (a = 244 \<longrightarrow> b \<le> 143)
               \<and> utf8_ok r
           | _ \<Rightarrow> False)
     else False)"

definition from_utf8 :: "bytes \<Rightarrow> string option" where
  "from_utf8 bs = (if utf8_ok (map of_char bs) then Some bs else None)"

definition strip_prefix :: "string \<Rightarrow> string \<Rightarrow> string option" where
  "strip_prefix p s = (if take (length p) s = p then Some (drop (length p) s) else None)"

definition split_once :: "char \<Rightarrow> string \<Rightarrow> (string \<times> string) option" where
  "split_once c s =
    (case dropWhile (\<lambda>x. x \<noteq> c) s of [] \<Rightarrow> None | _ # rest \<Rightarrow> Some (takeWhile (\<lambda>x. x \<noteq> c) s, rest))"

text \<open>The argument is the \<open>authorization\<close> header when present and readable.\<close>

definition check_basic_auth :: "string option \<Rightarrow> string \<Rightarrow> string \<Rightarrow> bool" where
  "check_basic_auth header expected_user expected_pass =
    (let auth = (case header of Some v \<Rightarrow> v | None \<Rightarrow> [])
     in (case strip_prefix ''Basic '' auth of
           None \<Rightarrow> False
         | Some encoded \<Rightarrow>
             (case from_utf8 (case base64_decode encoded of Some d \<Rightarrow> d | None \<Rightarrow> []) of
                None \<Rightarrow> False
              | Some decoded \<Rightarrow>
                  (case split_once CHR '':'' decoded of
                     None \<Rightarrow> False
                   | Some (user, pass) \<Rightarrow> user = expected_user \<and> pass = expected_pass))))"

section \<open>Handlers\<close>

record 'l dashboard =
  db_stats :: stats
  db_whitelist :: ip_whitelist
  db_limiter :: "'l rate_limiter"
  db_keys :: api_key_store
  db_config :: config
  db_path :: string
  db_nodes :: "node_entry list"
  db_user :: string
  db_pass :: string
  db_fs :: fs

text \<open>What the handlers take from outside.\<close>

record 'l dash_env =
  de_gov :: "'l governor"
  de_parse_ip :: "string \<Rightarrow> ip_addr option"
  de_show_ip :: "ip_addr \<Rightarrow> string"
  de_to_toml :: "config \<Rightarrow> string + string"
  de_write :: write_outcome
  de_rename_ok :: bool
  de_random :: "u8 list"
  de_now :: string

type_synonym 'a reply = "u16 + 'a"

definition auth :: "'l dashboard \<Rightarrow> string option \<Rightarrow> bool" where
  "auth d header = check_basic_auth header (db_user d) (db_pass d)"

definition persist_config :: "'l dash_env \<Rightarrow> 'l dashboard \<Rightarrow> 'l dashboard" where
  "persist_config e d =
    d\<lparr>db_fs := snd (save (de_to_toml e) (de_write e) (de_rename_ok e) (db_fs d) (db_path d) (db_config d))\<rparr>"

definition set_config :: "'l dash_env \<Rightarrow> config \<Rightarrow> 'l dashboard \<Rightarrow> 'l dashboard" where
  "set_config e c d = d\<lparr>db_config := c, db_limiter := reload_limiters (de_gov e) c (db_limiter d)\<rparr>"

definition last_msg_age_secs :: "u64 \<Rightarrow> node_health \<Rightarrow> u64" where
  "last_msg_age_secs now_ms h =
    (if nh_last_msg_ms h = 0 then - 1 else saturating_sub now_ms (nh_last_msg_ms h) div 1000)"

record stats_response =
  sx_global :: global_stats_snapshot
  sx_per_ip :: "(string \<times> ip_stats_snapshot) list"

definition stats_view :: "(ip_addr \<Rightarrow> string) \<Rightarrow> instant \<Rightarrow> stats \<Rightarrow> stats_response" where
  "stats_view show_ip now s =
    \<lparr>sx_global = global_snapshot now s,
     sx_per_ip = insert_all (\<lambda>x. show_ip (fst x)) (\<lambda>x. snapshot (snd x)) (st_per_ip s) []\<rparr>"

definition get_stats :: "'l dash_env \<Rightarrow> instant \<Rightarrow> string option \<Rightarrow> 'l dashboard \<Rightarrow> stats_response reply" where
  "get_stats e now header d =
    (if \<not> auth d header then Inl 401 else Inr (stats_view (de_show_ip e) now (db_stats d)))"

record ip_entry_view =
  ie_ip :: string
  ie_label :: string
  ie_rps :: u32
  ie_tps :: u32
  ie_burst_rps :: u32
  ie_burst_tps :: u32

definition ip_view :: "(ip_addr \<Rightarrow> string) \<Rightarrow> config \<Rightarrow> whitelist_entry \<Rightarrow> ip_entry_view" where
  "ip_view show_ip c w =
    \<lparr>ie_ip = show_ip (we_ip w), ie_label = we_label w,
     ie_rps = unwrap_or (we_rps w) (rl_default_rps (cfg_rate_limits c)),
     ie_tps = unwrap_or (we_tps w) (rl_default_tps (cfg_rate_limits c)),
     ie_burst_rps = unwrap_or (we_burst_rps w) (rl_default_burst_rps (cfg_rate_limits c)),
     ie_burst_tps = unwrap_or (we_burst_tps w) (rl_default_burst_tps (cfg_rate_limits c))\<rparr>"

definition list_ips :: "'l dash_env \<Rightarrow> string option \<Rightarrow> 'l dashboard \<Rightarrow> ip_entry_view list reply" where
  "list_ips e header d =
    (if \<not> auth d header then Inl 401
     else Inr (map (ip_view (de_show_ip e) (db_config d)) (cfg_whitelist (db_config d))))"

record add_ip_request =
  ar_ip :: string
  ar_label :: string
  ar_rps :: "u32 option"
  ar_tps :: "u32 option"
  ar_burst_rps :: "u32 option"
  ar_burst_tps :: "u32 option"

definition handle_add_ip :: "'l dash_env \<Rightarrow> string option \<Rightarrow> add_ip_request \<Rightarrow> 'l dashboard \<Rightarrow> ip_addr reply \<times> 'l dashboard" where
  "handle_add_ip e header body d =
    (if \<not> auth d header then (Inl 401, d)
     else (case de_parse_ip e (ar_ip body) of
             None \<Rightarrow> (Inl 400, d)
           | Some ip \<Rightarrow>
               let d = d\<lparr>db_whitelist := add_ip ip (db_whitelist d)\<rparr>;
                   c = (db_config d)\<lparr>cfg_whitelist := cfg_whitelist (db_config d) @
                     [\<lparr>we_ip = ip, we_label = ar_label body, we_rps = ar_rps body, we_tps = ar_tps body,
                       we_burst_rps = ar_burst_rps body, we_burst_tps = ar_burst_tps body\<rparr>]\<rparr>
               in (Inr ip, persist_config e (set_config e c d))))"

definition merge_entry :: "add_ip_request \<Rightarrow> whitelist_entry \<Rightarrow> whitelist_entry" where
  "merge_entry body w =
    (let w = (if ar_label body \<noteq> [] then w\<lparr>we_label := ar_label body\<rparr> else w);
         w = (if ar_rps body \<noteq> None then w\<lparr>we_rps := ar_rps body\<rparr> else w);
         w = (if ar_tps body \<noteq> None then w\<lparr>we_tps := ar_tps body\<rparr> else w);
         w = (if ar_burst_rps body \<noteq> None then w\<lparr>we_burst_rps := ar_burst_rps body\<rparr> else w)
     in if ar_burst_tps body \<noteq> None then w\<lparr>we_burst_tps := ar_burst_tps body\<rparr> else w)"

text \<open>\<open>iter_mut().find\<close>: the first match is changed in place; \<open>None\<close> if there is none.\<close>

fun update_first :: "('a \<Rightarrow> bool) \<Rightarrow> ('a \<Rightarrow> 'a) \<Rightarrow> 'a list \<Rightarrow> 'a list option" where
  "update_first P f [] = None"
| "update_first P f (x # xs) = (if P x then Some (f x # xs) else map_option ((#) x) (update_first P f xs))"

definition handle_update_ip ::
    "'l dash_env \<Rightarrow> string option \<Rightarrow> string \<Rightarrow> add_ip_request \<Rightarrow> 'l dashboard \<Rightarrow> unit reply \<times> 'l dashboard" where
  "handle_update_ip e header ip_str body d =
    (if \<not> auth d header then (Inl 401, d)
     else (case de_parse_ip e ip_str of
             None \<Rightarrow> (Inl 400, d)
           | Some ip \<Rightarrow>
               (case update_first (\<lambda>w. we_ip w = ip) (merge_entry body) (cfg_whitelist (db_config d)) of
                  Some ws \<Rightarrow>
                    (Inr (), persist_config e (set_config e ((db_config d)\<lparr>cfg_whitelist := ws\<rparr>) d))
                | None \<Rightarrow> (Inl 404, d))))"

definition handle_remove_ip :: "'l dash_env \<Rightarrow> string option \<Rightarrow> string \<Rightarrow> 'l dashboard \<Rightarrow> ip_addr reply \<times> 'l dashboard" where
  "handle_remove_ip e header ip_str d =
    (if \<not> auth d header then (Inl 401, d)
     else (case de_parse_ip e ip_str of
             None \<Rightarrow> (Inl 400, d)
           | Some ip \<Rightarrow>
               let d = d\<lparr>db_whitelist := remove_ip ip (db_whitelist d)\<rparr>;
                   c = (db_config d)\<lparr>cfg_whitelist := filter (\<lambda>w. we_ip w \<noteq> ip) (cfg_whitelist (db_config d))\<rparr>
               in (Inr ip, persist_config e (set_config e c d))))"

record node_view =
  nv_id :: string
  nv_label :: string
  nv_region :: string
  nv_status :: string
  nv_latency_ms :: u64
  nv_last_slot :: u64
  nv_uptime_pct :: rat
  nv_iris_healthy :: bool
  nv_iris_configured :: bool
  nv_grpc_healthy :: bool
  nv_rpc_blocked :: bool
  nv_wins :: u64
  nv_dupes :: u64
  nv_last_msg_age_secs :: u64

definition view_node :: "u64 \<Rightarrow> node_entry \<Rightarrow> node_view" where
  "view_node now_ms n =
    (let c = ne_config n; h = ne_health n
     in \<lparr>nv_id = nc_id c, nv_label = nc_label c, nv_region = nc_region c, nv_status = as_str (get_status h),
         nv_latency_ms = nh_latency_ms h, nv_last_slot = nh_last_slot h, nv_uptime_pct = uptime_pct h,
         nv_iris_healthy = nh_iris_healthy h, nv_iris_configured = (nc_iris_url c \<noteq> None),
         nv_grpc_healthy = nh_grpc_healthy h, nv_rpc_blocked = nh_rpc_blocked h, nv_wins = nh_wins h,
         nv_dupes = nh_dupes h, nv_last_msg_age_secs = last_msg_age_secs now_ms h\<rparr>)"

definition list_nodes :: "u64 \<Rightarrow> string option \<Rightarrow> 'l dashboard \<Rightarrow> node_view list reply" where
  "list_nodes now_ms header d =
    (if \<not> auth d header then Inl 401 else Inr (map (view_node now_ms) (db_nodes d)))"

text \<open>Byte slicing of a string panics (\<open>None\<close>) off a character boundary.\<close>

definition char_boundary :: "string \<Rightarrow> nat \<Rightarrow> bool" where
  "char_boundary s i \<longleftrightarrow> i = 0 \<or> i = length s \<or> i < length s \<and> \<not> cont (of_char (s ! i))"

definition mask_key :: "string \<Rightarrow> string option" where
  "mask_key key =
    (if length key > 12
     then if char_boundary key 8 \<and> char_boundary key (length key - 4)
          then Some (take 8 key @ ''...'' @ drop (length key - 4) key) else None
     else Some key)"

record key_view =
  kv_key_prefix :: "string option"
  kv_label :: string
  kv_rps :: "u32 option"
  kv_tps :: "u32 option"
  kv_created_at :: string

definition list_api_keys :: "string option \<Rightarrow> 'l dashboard \<Rightarrow> key_view list reply" where
  "list_api_keys header d =
    (if \<not> auth d header then Inl 401
     else Inr (map (\<lambda>(k, data). \<lparr>kv_key_prefix = mask_key k, kv_label = kd_label data, kv_rps = kd_rps data,
                    kv_tps = kd_tps data, kv_created_at = kd_created_at data\<rparr>) (list_keys (db_keys d))))"

record create_key_request =
  cr_label :: string
  cr_rps :: "u32 option"
  cr_tps :: "u32 option"
  cr_burst_rps :: "u32 option"
  cr_burst_tps :: "u32 option"

definition create_api_key ::
    "'l dash_env \<Rightarrow> string option \<Rightarrow> create_key_request \<Rightarrow> 'l dashboard \<Rightarrow> string reply \<times> 'l dashboard" where
  "create_api_key e header body d =
    (if \<not> auth d header then (Inl 401, d)
     else
       let key = generate_api_key (de_random e);
           d = d\<lparr>db_keys := add_key key
                  \<lparr>kd_label = cr_label body, kd_rps = cr_rps body, kd_tps = cr_tps body,
                   kd_burst_rps = cr_burst_rps body, kd_burst_tps = cr_burst_tps body,
                   kd_created_at = de_now e\<rparr> (db_keys d)\<rparr>;
           c = (db_config d)\<lparr>cfg_api_keys := cfg_api_keys (db_config d) @
                 [\<lparr>ak_key = key, ak_label = cr_label body, ak_rps = cr_rps body, ak_tps = cr_tps body,
                   ak_burst_rps = cr_burst_rps body, ak_burst_tps = cr_burst_tps body,
                   ak_created_at = de_now e, ak_revoked = False\<rparr>]\<rparr>
       in (Inr key, persist_config e (set_config e c d)))"

definition key_matches :: "string \<Rightarrow> string \<Rightarrow> bool" where
  "key_matches pre k \<longleftrightarrow> take (length pre) k = pre \<or> mask_key k = Some pre"

definition revoke_api_key ::
    "'l dash_env \<Rightarrow> string option \<Rightarrow> string \<Rightarrow> 'l dashboard \<Rightarrow> unit reply \<times> 'l dashboard" where
  "revoke_api_key e header pre d =
    (if \<not> auth d header then (Inl 401, d)
     else (case find (\<lambda>(k, _). key_matches pre k) (list_keys (db_keys d)) of
             Some (key, _) \<Rightarrow>
               let d = d\<lparr>db_keys := snd (revoke_key key (db_keys d))\<rparr>;
                   c = (case update_first (\<lambda>x. ak_key x = key) (\<lambda>x. x\<lparr>ak_revoked := True\<rparr>)
                               (cfg_api_keys (db_config d)) of
                          Some ks \<Rightarrow> (db_config d)\<lparr>cfg_api_keys := ks\<rparr>
                        | None \<Rightarrow> db_config d)
               in (Inr (), persist_config e (set_config e c d))
           | None \<Rightarrow> (Inl 404, d)))"

definition health_check :: "instant \<Rightarrow> 'l dashboard \<Rightarrow> json" where
  "health_check now d =
    JObject
      [(''status'', JString ''ok''),
       (''uptime_secs'', JPosInt (of_nat ((now - st_start_time (db_stats d)) div 1000))),
       (''nodes'', JArray (map (\<lambda>n. JObject
          [(''id'', JString (nc_id (ne_config n))),
           (''status'', JString (as_str (get_status (ne_health n)))),
           (''latency_ms'', JPosInt (nh_latency_ms (ne_health n)))]) (db_nodes d))),
       (''whitelisted_ips'', JPosInt (of_nat (length (cfg_whitelist (db_config d))))),
       (''api_keys'', JPosInt (of_nat (length (filter (\<lambda>k. \<not> ak_revoked k) (cfg_api_keys (db_config d))))))]"

record ws_stats_message =
  wm_stats :: stats_response
  wm_ips :: "ip_entry_view list"
  wm_nodes :: "node_view list"
  wm_api_keys_count :: nat

definition ws_stats_tick :: "'l dash_env \<Rightarrow> instant \<Rightarrow> u64 \<Rightarrow> 'l dashboard \<Rightarrow> ws_stats_message" where
  "ws_stats_tick e now now_ms d =
    \<lparr>wm_stats = stats_view (de_show_ip e) now (db_stats d),
     wm_ips = map (ip_view (de_show_ip e) (db_config d)) (cfg_whitelist (db_config d)),
     wm_nodes = map (view_node now_ms) (db_nodes d),
     wm_api_keys_count = length (filter (\<lambda>k. \<not> ak_revoked k) (cfg_api_keys (db_config d)))\<rparr>"

definition ws_stats :: "string option \<Rightarrow> 'l dashboard \<Rightarrow> unit reply" where
  "ws_stats header d = (if \<not> auth d header then Inl 401 else Inr ())"

section \<open>Configuration reload\<close>

text \<open>The SIGHUP handler of \<open>main.rs\<close> on the same shared state.\<close>

definition sighup_reload ::
    "'l governor \<Rightarrow> (string \<Rightarrow> string + config) \<Rightarrow> 'l dashboard \<Rightarrow> 'l dashboard" where
  "sighup_reload gov from_str d =
    (case load from_str (db_fs d) (db_path d) of
       Inr c \<Rightarrow>
         let d = d\<lparr>db_whitelist := update_whitelist (whitelist_set c) (db_whitelist d)\<rparr>;
             d = d\<lparr>db_limiter := reload_limiters gov c (db_limiter d)\<rparr>;
             d = d\<lparr>db_keys := reload_keys (cfg_api_keys c) (db_keys d)\<rparr>
         in d\<lparr>db_config := c\<rparr>
     | Inl _ \<Rightarrow> d)"

text \<open>\<open>Path::join\<close> with a relative file name.\<close>

definition path_join :: "string \<Rightarrow> string \<Rightarrow> string" where
  "path_join dir name = (if dir = [] \<or> last dir = CHR ''/'' then dir @ name else dir @ ''/'' @ name)"

definition stats_path :: "config \<Rightarrow> string" where
  "stats_path c = path_join (gc_data_dir (cfg_general c)) ''stats.json''"

text \<open>The statistics at start-up: those of the last run if they can be read.\<close>

record stats_codec =
  sd_from_json :: "string \<Rightarrow> persisted_stats option"
  sd_parse_ip :: "string \<Rightarrow> ip_addr option"

definition startup_stats :: "stats_codec \<Rightarrow> instant \<Rightarrow> fs \<Rightarrow> config \<Rightarrow> stats" where
  "startup_stats codec now fs c =
    (let stats = new_stats now
     in (case load_from_file (sd_from_json codec) fs (stats_path c) of
           Some persisted \<Rightarrow> restore (sd_parse_ip codec) persisted stats
         | None \<Rightarrow> stats))"

text \<open>The shared state that \<open>main\<close> builds from a loaded configuration.\<close>

definition start_dashboard ::
    "'l governor \<Rightarrow> stats_codec \<Rightarrow> instant \<Rightarrow> string \<Rightarrow> fs \<Rightarrow> config \<Rightarrow> 'l dashboard" where
  "start_dashboard gov codec now path fs c =
    \<lparr>db_stats = startup_stats codec now fs c, db_whitelist = new_whitelist (whitelist_set c),
     db_limiter = new_rate_limiter gov c, db_keys = new_key_store (cfg_api_keys c), db_config = c,
     db_path = path, db_nodes = new_nodes c, db_user = gc_dashboard_user (cfg_general c),
     db_pass = gc_dashboard_pass (cfg_general c), db_fs = fs\<rparr>"

section \<open>Base64\<close>

text \<open>The encoding of RFC 4648, as a reference for the decoder.\<close>

definition enc6 :: "nat \<Rightarrow> char" where
  "enc6 n = b64_table ! n"

definition byte_of :: "char \<Rightarrow> nat" where
  "byte_of c = of_char c"

fun base64_encode :: "bytes \<Rightarrow> string" where
  "base64_encode [] = []"
| "base64_encode [a] = [enc6 (byte_of a div 4), enc6 ((byte_of a mod 4) * 16)] @ ''==''"
| "base64_encode [a, b] =
    [enc6 (byte_of a div 4), enc6 ((byte_of a mod 4) * 16 + byte_of b div 16), enc6 ((byte_of b mod 16) * 4)] @ ''=''"
| "base64_encode (a # b # c # r) =
    [enc6 (byte_of a div 4), enc6 ((byte_of a mod 4) * 16 + byte_of b div 16),
     enc6 ((byte_of b mod 16) * 4 + byte_of c div 64), enc6 (byte_of c mod 64)] @ base64_encode r"

lemma b64_position_nth: "distinct cs \<Longrightarrow> n < length cs \<Longrightarrow> b64_position (cs ! n) cs = Some n"
proof (induction cs arbitrary: n)
  case (Cons c cs)
  then show ?case by (cases n) auto
qed simp

lemma b64_table_facts: "distinct b64_table" "length b64_table = 64" "CHR ''='' \<notin> set b64_table"
  by (simp_all add: b64_table_def)

lemma enc6_position: "n < 64 \<Longrightarrow> b64_position (enc6 n) b64_table = Some n"
  by (simp add: enc6_def b64_position_nth b64_table_facts)

lemma enc6_not_pad: "n < 64 \<Longrightarrow> enc6 n \<noteq> CHR ''=''"
  unfolding enc6_def using b64_table_facts by (metis nth_mem)

lemma byte_of_less: "byte_of c < 256"
  by (simp add: byte_of_def)

lemma or_push: "v < 64 \<Longrightarrow> or (push_bit 6 (of_nat n :: u32)) (of_nat v) = of_nat (n * 64 + v)"
proof -
  assume v: "v < 64"
  have "or (push_bit 6 n) v = push_bit 6 n + v"
  proof (rule disjunctive_add [symmetric])
    fix k show "\<not> bit (push_bit 6 n) k \<or> \<not> bit v k"
    proof (cases "k < 6")
      case True then show ?thesis by (simp add: bit_push_bit_iff)
    next
      case False
      have "take_bit 6 v = v" using v by (simp add: take_bit_nat_eq_self_iff)
      then have "\<not> bit v k" using False by (metis bit_take_bit_iff)
      then show ?thesis by simp
    qed
  qed
  then have "(of_nat (or (push_bit 6 n) v) :: u32) = of_nat (n * 64 + v)" by (simp add: push_bit_eq_mult mult.commute)
  then show ?thesis by (simp add: of_nat_or_eq of_nat_push_bit)
qed

lemma drop_byte: "m < 2 ^ 32 \<Longrightarrow> unat (ucast (drop_bit k (of_nat m :: u32)) :: u8) = (m div 2 ^ k) mod 256"
proof -
  assume m: "m < 2 ^ 32"
  have u: "unat (of_nat m :: u32) = m" using m by (simp add: unat_of_nat)
  have "unat (drop_bit k (of_nat m :: u32)) = drop_bit k m"
    using m take_bit_nat_eq_self [of m 32] by (simp only: unsigned_drop_bit_eq u) simp
  then show ?thesis
    by (simp only: unsigned_ucast_eq) (simp add: take_bit_eq_mod drop_bit_eq_div)
qed

lemma mask_low: "k \<le> 8 \<Longrightarrow> m < 2 ^ 32 \<Longrightarrow> and (of_nat m :: u32) (push_bit k 1 - 1) = of_nat (m mod 2 ^ k)"
proof -
  have "push_bit k 1 - 1 = (mask k :: u32)" by (simp add: mask_eq_exp_minus_1 push_bit_eq_mult)
  then show "k \<le> 8 \<Longrightarrow> m < 2 ^ 32 \<Longrightarrow> and (of_nat m :: u32) (push_bit k 1 - 1) = of_nat (m mod 2 ^ k)"
    by (simp add: take_bit_eq_mask [symmetric] of_nat_take_bit [symmetric]) (metis of_nat_take_bit take_bit_eq_mod)
qed

text \<open>One character of input, on buffers written as naturals.\<close>

lemma b64_loop_first:
  "v < 64 \<Longrightarrow> b64_loop (enc6 v # input) (of_nat 0) 0 out = b64_loop input (of_nat v) 6 out"
  using or_push [of v 0] by (simp add: enc6_position enc6_not_pad)

lemma b64_loop_next:
  assumes "v < 64" "2 \<le> bits" "bits \<le> 6" "n < 64"
  shows "b64_loop (enc6 v # input) (of_nat n) bits out =
    b64_loop input (of_nat ((n * 64 + v) mod 2 ^ (bits - 2))) (bits - 2)
      (out @ [char_of ((n * 64 + v) div 2 ^ (bits - 2) mod 256)])"
proof -
  have "n * 64 + v < 2 ^ 32" using assms by simp
  then show ?thesis
    using assms drop_byte [of "n * 64 + v" "bits - 2"] mask_low [of "bits - 2" "n * 64 + v"]
    by (simp add: enc6_position enc6_not_pad or_push Let_def)
qed

lemma b64_loop_pad: "b64_loop (CHR ''='' # input) buf bits out = Some out"
  by simp

declare b64_loop.simps [simp del]

lemma b64_loop_Nil [simp]: "b64_loop [] buf bits out = Some out"
  by (simp add: b64_loop.simps)

lemma char_of_byte: "char_of (byte_of c) = c"
  by (simp add: byte_of_def)

lemma regroup:
  fixes x :: nat
  assumes "q < k" "0 < k"
  shows "(x div j * (j * k) + (x mod j * k + q)) div k = x \<and> (x div j * (j * k) + (x mod j * k + q)) mod k = q"
proof -
  have "x div j * (j * k) + (x mod j * k + q) = (x div j * j + x mod j) * k + q" by (simp only: algebra_simps)
  then have eq: "x div j * (j * k) + (x mod j * k + q) = x * k + q" by (simp only: div_mult_mod_eq)
  show ?thesis unfolding eq using assms by simp
qed

lemma b64_loop_group:
  "b64_loop ([enc6 (byte_of a div 4), enc6 ((byte_of a mod 4) * 16 + byte_of b div 16),
     enc6 ((byte_of b mod 16) * 4 + byte_of c div 64), enc6 (byte_of c mod 64)] @ rest) (of_nat 0) 0 out
   = b64_loop rest (of_nat 0) 0 (out @ [a, b, c])"
proof -
  define x y z where "x = byte_of a" and "y = byte_of b" and "z = byte_of c"
  have lt: "x < 256" "y < 256" "z < 256" by (simp_all add: x_def y_def z_def byte_of_less)
  have chars: "char_of x = a" "char_of y = b" "char_of z = c" by (simp_all add: x_def y_def z_def char_of_byte)
  have v: "x div 4 < 64" "x mod 4 * 16 + y div 16 < 64" "y mod 16 * 4 + z div 64 < 64" "z mod 64 < 64"
    using lt by auto
  have a1: "(x div 4 * 64 + (x mod 4 * 16 + y div 16)) div 16 mod 256 = x"
    "(x div 4 * 64 + (x mod 4 * 16 + y div 16)) mod 16 = y div 16"
    using lt regroup [where j = 4 and x = x and k = 16 and q = "y div 16"] by simp_all
  have a2: "(y div 16 * 64 + (y mod 16 * 4 + z div 64)) div 4 mod 256 = y"
    "(y div 16 * 64 + (y mod 16 * 4 + z div 64)) mod 4 = z div 64"
    using lt regroup [where j = 16 and x = y and k = 4 and q = "z div 64"] by simp_all
  have a3: "(z div 64 * 64 + z mod 64) mod 256 = z" using lt by simp
  have n: "y div 16 < 64" "z div 64 < 64" using lt by auto
  note s1 = b64_loop_first [OF v(1)]
  have s2: "b64_loop (enc6 (x mod 4 * 16 + y div 16) # i) (of_nat (x div 4)) 6 out'
      = b64_loop i (of_nat (y div 16)) 4 (out' @ [a])" for i out'
    using b64_loop_next [OF v(2), of 6 "x div 4"] v(1) a1 by (simp add: chars)
  have s3: "b64_loop (enc6 (y mod 16 * 4 + z div 64) # i) (of_nat (y div 16)) 4 out'
      = b64_loop i (of_nat (z div 64)) 2 (out' @ [b])" for i out'
    using b64_loop_next [OF v(3), of 4 "y div 16"] n a2 by (simp add: chars)
  have s4: "b64_loop (enc6 (z mod 64) # i) (of_nat (z div 64)) 2 out'
      = b64_loop i (of_nat 0) 0 (out' @ [c])" for i out'
    using b64_loop_next [OF v(4), of 2 "z div 64"] n a3 by (simp add: chars)
  show ?thesis
    unfolding x_def [symmetric] y_def [symmetric] z_def [symmetric] append_Cons append_Nil s1 s2 s3 s4 by simp
qed

lemma base64_roundtrip_loop: "b64_loop (base64_encode bs) (of_nat 0) 0 out = Some (out @ bs)"
proof (induction bs arbitrary: out rule: base64_encode.induct)
  case (2 a)
  define x where "x = byte_of a"
  have lt: "x < 256" by (simp add: x_def byte_of_less)
  have v: "x div 4 < 64" "x mod 4 * 16 < 64" using lt by auto
  have "(x div 4 * 64 + x mod 4 * 16) div 16 mod 256 = x"
    using lt regroup [where j = 4 and x = x and k = 16 and q = 0] by simp
  then have s2: "b64_loop (enc6 (x mod 4 * 16) # i) (of_nat (x div 4)) 6 out'
      = b64_loop i (of_nat ((x div 4 * 64 + x mod 4 * 16) mod 16)) 4 (out' @ [a])" for i out'
    using b64_loop_next [OF v(2), of 6 "x div 4"] v(1) by (simp add: x_def char_of_byte)
  show ?case
    unfolding base64_encode.simps x_def [symmetric] append_Cons append_Nil b64_loop_first [OF v(1)] s2 b64_loop_pad
    by simp
next
  case (3 a b)
  define x y where "x = byte_of a" and "y = byte_of b"
  have lt: "x < 256" "y < 256" by (simp_all add: x_def y_def byte_of_less)
  have v: "x div 4 < 64" "x mod 4 * 16 + y div 16 < 64" "y mod 16 * 4 < 64" "y div 16 < 64" using lt by auto
  have a1: "(x div 4 * 64 + (x mod 4 * 16 + y div 16)) div 16 mod 256 = x"
    "(x div 4 * 64 + (x mod 4 * 16 + y div 16)) mod 16 = y div 16"
    "(y div 16 * 64 + y mod 16 * 4) div 4 mod 256 = y"
    using lt regroup [where j = 4 and x = x and k = 16 and q = "y div 16"] regroup [where j = 16 and x = y and k = 4 and q = 0] by simp_all
  have chars: "char_of x = a" "char_of y = b" by (simp_all add: x_def y_def char_of_byte)
  have s2: "b64_loop (enc6 (x mod 4 * 16 + y div 16) # i) (of_nat (x div 4)) 6 out'
      = b64_loop i (of_nat (y div 16)) 4 (out' @ [a])" for i out'
    using b64_loop_next [OF v(2), of 6 "x div 4"] v(1) a1 by (simp add: chars)
  have s3: "b64_loop (enc6 (y mod 16 * 4) # i) (of_nat (y div 16)) 4 out'
      = b64_loop i (of_nat ((y div 16 * 64 + y mod 16 * 4) mod 4)) 2 (out' @ [b])" for i out'
    using b64_loop_next [OF v(3), of 4 "y div 16"] v(4) a1(3) by (simp add: chars)
  show ?case
    unfolding base64_encode.simps x_def [symmetric] y_def [symmetric] append_Cons append_Nil
      b64_loop_first [OF v(1)] s2 s3 b64_loop_pad by simp
next
  case (4 a b c r)
  then show ?case unfolding base64_encode.simps b64_loop_group by simp
qed simp

lemma base64_roundtrip: "base64_decode (base64_encode bs) = Some bs"
  using base64_roundtrip_loop [of bs "[]"] by (simp add: base64_decode_def)

section \<open>Lemmas on the shared state\<close>

lemma strip_prefix_iff: "strip_prefix p s = Some r \<longleftrightarrow> s = p @ r"
  by (auto simp: strip_prefix_def) (metis append_take_drop_id)

lemma split_once_iff: "split_once c s = Some (a, b) \<longleftrightarrow> s = a @ c # b \<and> c \<notin> set a"
proof (induction s arbitrary: a)
  case (Cons x s)
  show ?case
  proof (cases "x = c")
    case True
    then show ?thesis by (auto simp: split_once_def Cons_eq_append_conv)
  next
    case False
    then have "split_once c (x # s) = map_option (\<lambda>(a, b). (x # a, b)) (split_once c s)"
      by (cases "dropWhile (\<lambda>y. y \<noteq> c) s") (simp_all add: split_once_def del: dropWhile_eq_Nil_conv)
    with False show ?thesis by (cases a) (auto simp: Cons.IH)
  qed
qed (simp add: split_once_def)

lemma update_first_map: "(\<And>x. g (f x) = g x) \<Longrightarrow> update_first P f xs = Some ys \<Longrightarrow> map g ys = map g xs"
  by (induction xs arbitrary: ys) (auto split: if_splits)

lemma merge_entry_ip [simp]: "we_ip (merge_entry body w) = we_ip w"
  by (simp add: merge_entry_def Let_def)

lemma persist_frame [simp]:
  "db_whitelist (persist_config e d) = db_whitelist d" "db_keys (persist_config e d) = db_keys d"
  "db_config (persist_config e d) = db_config d" "db_limiter (persist_config e d) = db_limiter d"
  "db_user (persist_config e d) = db_user d" "db_pass (persist_config e d) = db_pass d"
  "db_path (persist_config e d) = db_path d"
  by (simp_all add: persist_config_def)

lemma set_config_frame [simp]:
  "db_whitelist (set_config e c d) = db_whitelist d" "db_keys (set_config e c d) = db_keys d"
  "db_config (set_config e c d) = c" "db_limiter (set_config e c d) = new_rate_limiter (de_gov e) c"
  "db_user (set_config e c d) = db_user d" "db_pass (set_config e c d) = db_pass d"
  "db_path (set_config e c d) = db_path d"
  by (simp_all add: set_config_def reload_eq_new)

text \<open>Revoking the single entry of a key removes the key from the store built from the list.\<close>

lemma validate_revoked:
  assumes "distinct (map ak_key es)" "update_first (\<lambda>x. ak_key x = key) (\<lambda>x. x\<lparr>ak_revoked := True\<rparr>) es = Some es'"
  shows "validate_key (new_key_store es') k = (if k = key then None else validate_key (new_key_store es) k)"
proof -
  have "find (\<lambda>e. ak_key e = k \<and> \<not> ak_revoked e) (rev es') =
      (if k = key then None else find (\<lambda>e. ak_key e = k \<and> \<not> ak_revoked e) (rev es))"
    using assms
  proof (induction es arbitrary: es')
    case (Cons x xs)
    have app: "find P (ys @ [z]) = (case find P ys of Some v \<Rightarrow> Some v | None \<Rightarrow> if P z then Some z else None)"
      for P ys and z :: api_key_entry by (induction ys) auto
    show ?case
    proof (cases "ak_key x = key")
      case True
      with Cons.prems have "find (\<lambda>e. ak_key e = key \<and> \<not> ak_revoked e) (rev xs) = None"
        by (auto simp: find_None_iff image_iff)
      with True Cons.prems show ?thesis by (auto simp: app split: option.splits)
    next
      case False
      with Cons.prems obtain ys where ys: "update_first (\<lambda>x. ak_key x = key) (\<lambda>x. x\<lparr>ak_revoked := True\<rparr>) xs = Some ys"
        "es' = x # ys" by (auto split: if_splits)
      with Cons.IH [OF _ ys(1)] Cons.prems False show ?thesis by (auto simp: app split: option.splits)
    qed
  qed simp
  then show ?thesis by (simp add: validate_new_store)
qed

lemma update_first_None: "update_first P f xs = None \<longleftrightarrow> (\<forall>x \<in> set xs. \<not> P x)"
  by (induction xs) auto

lemma check_basic_auth_iff:
  "check_basic_auth h user pass \<longleftrightarrow>
     (\<exists>enc. h = Some (''Basic '' @ enc) \<and> base64_decode enc = Some (user @ CHR '':'' # pass)
        \<and> CHR '':'' \<notin> set user \<and> utf8_ok (map of_char (user @ CHR '':'' # pass)))" (is "_ \<longleftrightarrow> ?R h")
proof
  assume "check_basic_auth h user pass"
  then obtain enc dec where "strip_prefix ''Basic '' (case h of Some v \<Rightarrow> v | None \<Rightarrow> []) = Some enc"
    "from_utf8 (case base64_decode enc of Some d \<Rightarrow> d | None \<Rightarrow> []) = Some dec"
    "split_once CHR '':'' dec = Some (user, pass)"
    unfolding check_basic_auth_def Let_def by (auto split: option.splits)
  then show "?R h"
    by (auto simp: strip_prefix_iff split_once_iff from_utf8_def split: option.splits if_splits)
next
  assume "?R h"
  then obtain enc where enc: "h = Some (''Basic '' @ enc)" "base64_decode enc = Some (user @ CHR '':'' # pass)"
    "CHR '':'' \<notin> set user" "utf8_ok (map of_char (user @ CHR '':'' # pass))" by blast
  have "strip_prefix ''Basic '' (''Basic '' @ enc) = Some enc"
    "split_once CHR '':'' (user @ CHR '':'' # pass) = Some (user, pass)"
    using enc(3) by (simp_all only: strip_prefix_iff split_once_iff) simp
  then show "check_basic_auth h user pass"
    unfolding check_basic_auth_def Let_def enc(1) option.case
    using enc(2,4) by (simp only: option.case from_utf8_def) simp
qed

lemma check_basic_auth_encoded:
  "CHR '':'' \<notin> set user \<Longrightarrow> utf8_ok (map of_char (user @ CHR '':'' # pass)) \<Longrightarrow>
   check_basic_auth (Some (''Basic '' @ base64_encode (user @ CHR '':'' # pass))) user pass"
  using check_basic_auth_iff base64_roundtrip by blast

section \<open>Properties\<close>



text \<open>The shared access state agrees with the configuration: the whitelist is the configuration's, and a
  key is valid with the data of its non-revoked entry; every key has one entry.\<close>

definition coherent :: "'l dashboard \<Rightarrow> bool" where
  "coherent d \<longleftrightarrow> db_whitelist d = whitelist_set (db_config d)
     \<and> (\<forall>k. validate_key (db_keys d) k = validate_key (new_key_store (cfg_api_keys (db_config d))) k)
     \<and> distinct (map ak_key (cfg_api_keys (db_config d)))"

datatype dash_op =
    OpAddIp add_ip_request
  | OpUpdateIp string add_ip_request
  | OpRemoveIp string
  | OpCreateKey create_key_request
  | OpRevokeKey string

fun dash_step :: "'l dash_env \<Rightarrow> string option \<Rightarrow> dash_op \<Rightarrow> 'l dashboard \<Rightarrow> u16 option \<times> 'l dashboard" where
  "dash_step e h (OpAddIp body) d = (case handle_add_ip e h body d of (Inl st, d) \<Rightarrow> (Some st, d) | (Inr _, d) \<Rightarrow> (None, d))"
| "dash_step e h (OpUpdateIp ip body) d =
    (case handle_update_ip e h ip body d of (Inl st, d) \<Rightarrow> (Some st, d) | (Inr _, d) \<Rightarrow> (None, d))"
| "dash_step e h (OpRemoveIp ip) d = (case handle_remove_ip e h ip d of (Inl st, d) \<Rightarrow> (Some st, d) | (Inr _, d) \<Rightarrow> (None, d))"
| "dash_step e h (OpCreateKey body) d = (case create_api_key e h body d of (Inl st, d) \<Rightarrow> (Some st, d) | (Inr _, d) \<Rightarrow> (None, d))"
| "dash_step e h (OpRevokeKey pre) d = (case revoke_api_key e h pre d of (Inl st, d) \<Rightarrow> (Some st, d) | (Inr _, d) \<Rightarrow> (None, d))"

lemma coherent_I:
  "db_whitelist d = whitelist_set (db_config d) \<Longrightarrow>
   (\<And>k. validate_key (db_keys d) k = validate_key (new_key_store (cfg_api_keys (db_config d))) k) \<Longrightarrow>
   distinct (map ak_key (cfg_api_keys (db_config d))) \<Longrightarrow> coherent d"
  by (simp add: coherent_def)

lemma coherent_add_ip: "coherent d \<Longrightarrow> coherent (snd (handle_add_ip e h body d))"
  by (auto simp: handle_add_ip_def coherent_def whitelist_set_def add_ip_def Let_def split: option.splits)

lemma coherent_remove_ip: "coherent d \<Longrightarrow> coherent (snd (handle_remove_ip e h ip d))"
  by (auto simp: handle_remove_ip_def coherent_def whitelist_set_def remove_ip_def Let_def split: option.splits)

lemma coherent_update_ip:
  assumes "coherent d"
  shows "coherent (snd (handle_update_ip e h ip body d))"
proof -
  have "set (map we_ip ws) = set (map we_ip (cfg_whitelist (db_config d)))"
    if "update_first (\<lambda>w. we_ip w = i) (merge_entry body) (cfg_whitelist (db_config d)) = Some ws" for ws i
    using update_first_map [where g = we_ip and f = "merge_entry body", OF _ that] by simp
  with assms show ?thesis
    by (auto simp: handle_update_ip_def coherent_def whitelist_set_def simp del: set_map split: option.splits)
qed

lemma coherent_create:
  assumes "coherent d" "generate_api_key (de_random e) \<notin> ak_key ` set (cfg_api_keys (db_config d))"
  shows "coherent (snd (create_api_key e h body d))"
  using assms
  by (auto simp: create_api_key_def coherent_def whitelist_set_def validate_new_store entry_data_def Let_def)

lemma coherent_revoke:
  assumes "coherent d"
  shows "coherent (snd (revoke_api_key e h pre d))"
proof (cases "auth d h \<and> find (\<lambda>(k, _). key_matches pre k) (list_keys (db_keys d)) \<noteq> None")
  case True
  then obtain key data where f: "find (\<lambda>(k, _). key_matches pre k) (list_keys (db_keys d)) = Some (key, data)"
    by auto
  then have "validate_key (db_keys d) key \<noteq> None"
    by (auto simp: list_keys_def validate_key_def map_of_eq_None_iff find_Some_iff) (metis fst_conv imageI nth_mem)
  then have "\<exists>x \<in> set (cfg_api_keys (db_config d)). ak_key x = key"
    using assms new_store_valid_iff [of "cfg_api_keys (db_config d)" key] by (auto simp: coherent_def)
  then obtain ks where ks: "update_first (\<lambda>x. ak_key x = key) (\<lambda>x. x\<lparr>ak_revoked := True\<rparr>)
      (cfg_api_keys (db_config d)) = Some ks"
    using update_first_None [of "\<lambda>x. ak_key x = key" "\<lambda>x. x\<lparr>ak_revoked := True\<rparr>" "cfg_api_keys (db_config d)"]
    by (cases "update_first (\<lambda>x. ak_key x = key) (\<lambda>x. x\<lparr>ak_revoked := True\<rparr>) (cfg_api_keys (db_config d))") auto
  have dist: "distinct (map ak_key (cfg_api_keys (db_config d)))" using assms by (simp add: coherent_def)
  have "distinct (map ak_key ks)" 
    using dist update_first_map [where g = ak_key and f = "\<lambda>x. x\<lparr>ak_revoked := True\<rparr>", OF _ ks] by simp
  then show ?thesis
    using True assms f ks validate_revoked [OF dist ks]
    by (auto simp: revoke_api_key_def coherent_def whitelist_set_def Let_def)
qed (use assms in \<open>auto simp: revoke_api_key_def split: option.splits prod.splits\<close>)

text \<open>Administration keeps the running state and the configuration in step: every dashboard
  operation (one at a time, additions with a fresh key) preserves their agreement, one that succeeds leaves the
  limiters as a restart on the new configuration would build them, and one without valid
  credentials answers 401 and changes nothing.\<close>

theorem dashboard_coherence:
  assumes "coherent d"
    and "\<forall>body. opn = OpCreateKey body \<longrightarrow> generate_api_key (de_random e) \<notin> ak_key ` set (cfg_api_keys (db_config d))"
    and "dash_step e header opn d = (err, d')"
  shows "coherent d'
    \<and> (err = None \<longrightarrow> db_limiter d' = new_rate_limiter (de_gov e) (db_config d'))
    \<and> (\<not> auth d header \<longrightarrow> err = Some 401 \<and> d' = d)"
proof -
  have "coherent (snd (dash_step e header opn d))"
    using assms(1,2) coherent_add_ip [of d e header] coherent_update_ip [of d e header]
      coherent_remove_ip [of d e header] coherent_create [of d e header] coherent_revoke [of d e header]
    by (cases opn) (auto simp: case_prod_unfold split: sum.splits)
  moreover have "fst (dash_step e header opn d) = None \<Longrightarrow>
      db_limiter (snd (dash_step e header opn d)) = new_rate_limiter (de_gov e) (db_config (snd (dash_step e header opn d)))"
    by (cases opn)
      (auto simp: handle_add_ip_def handle_update_ip_def handle_remove_ip_def create_api_key_def revoke_api_key_def
        Let_def split: option.splits if_splits)
  moreover have "\<not> auth d header \<Longrightarrow> dash_step e header opn d = (Some 401, d)"
    by (cases opn)
      (simp_all add: handle_add_ip_def handle_update_ip_def handle_remove_ip_def create_api_key_def revoke_api_key_def)
  ultimately show ?thesis using assms(3) by auto
qed

definition example_dash :: "nat dashboard" where
  "example_dash = start_dashboard example_governor \<lparr>sd_from_json = (\<lambda>_. None), sd_parse_ip = (\<lambda>_. None)\<rparr> 0 ''/c.toml'' Map.empty example_config"

definition example_dash_env :: "nat dash_env" where
  "example_dash_env = \<lparr>de_gov = example_governor, de_parse_ip = (\<lambda>_. Some (V4 9)), de_show_ip = (\<lambda>_. []),
     de_to_toml = (\<lambda>_. Inr ''toml''), de_write = Written, de_rename_ok = True, de_random = [], de_now = []\<rparr>"

theorem dashboard_coherence_witness:
  "coherent example_dash \<and> coherent (snd (dash_step example_dash_env None (OpRemoveIp ''x'') example_dash))"
proof -
  have c: "coherent example_dash"
    by (simp add: coherent_def example_dash_def start_dashboard_def new_whitelist_def example_config_def)
  have "dash_step example_dash_env None (OpRemoveIp ''x'') example_dash
      = (fst (dash_step example_dash_env None (OpRemoveIp ''x'') example_dash),
         snd (dash_step example_dash_env None (OpRemoveIp ''x'') example_dash))" by simp
  from dashboard_coherence [OF c _ this] c show ?thesis by simp
qed

text \<open>A reload by signal makes the running state that of a fresh start on the file: whitelist,
  keys, limiters and configuration are those a new process would build; a file that does not load
  changes nothing.\<close>

theorem sighup_matches_restart:
  "case load from_str (db_fs d) (db_path d) of
     Inr c \<Rightarrow> let d' = sighup_reload gov from_str d; fresh = start_dashboard gov codec now (db_path d) (db_fs d) c
       in db_whitelist d' = db_whitelist fresh \<and> db_keys d' = db_keys fresh \<and> db_limiter d' = db_limiter fresh
        \<and> db_config d' = db_config fresh \<and> db_stats d' = db_stats d
   | Inl _ \<Rightarrow> sighup_reload gov from_str d = d"
  by (simp add: sighup_reload_def start_dashboard_def update_whitelist_def new_whitelist_def reload_keys_eq
      reload_eq_new Let_def split: sum.splits)

end
