(* ===== verification/Dashboard_Routes.thy ===== *)
theory Dashboard_Routes
  imports Dashboard
begin

text \<open>
  The dashboard's server (\<open>run_dashboard\<close> of \<open>src/src/dashboard/mod.rs\<close>): the routing table and what
  a request does from the table to the handler. Path matching and the extractors that read a JSON body
  or a WebSocket upgrade are axum's and parameters here; an extractor that rejects a request answers it
  before the handler runs.
\<close>

section \<open>Routing table\<close>

datatype http_method = MGet | MPost | MPut | MDelete

datatype route_handler =
    IndexPage | GetStats | ListIps | AddIp | UpdateIp | RemoveIp | ListNodes | ListApiKeys
  | CreateApiKey | RevokeApiKey | HealthCheck | WsStats

definition routes :: "(string \<times> http_method \<times> route_handler) list" where
  "routes =
    [(''/'', MGet, IndexPage),
     (''/api/stats'', MGet, GetStats),
     (''/api/ips'', MGet, ListIps),
     (''/api/ips'', MPost, AddIp),
     (''/api/ips/:ip'', MPut, UpdateIp),
     (''/api/ips/:ip'', MDelete, RemoveIp),
     (''/api/nodes'', MGet, ListNodes),
     (''/api/keys'', MGet, ListApiKeys),
     (''/api/keys'', MPost, CreateApiKey),
     (''/api/keys/:prefix'', MDelete, RevokeApiKey),
     (''/api/health'', MGet, HealthCheck),
     (''/api/ws'', MGet, WsStats)]"

section \<open>Requests\<close>

record http_request =
  hr_method :: http_method
  hr_path :: string
  hr_auth :: "string option"
  hr_body :: bytes

text \<open>\<open>ax_match pattern path\<close> is the value of the pattern's parameter (empty if it has none) if the path
  matches; the extractors give a status on rejection.\<close>

record axum =
  ax_match :: "string \<Rightarrow> string \<Rightarrow> string option"
  ax_ip_body :: "bytes \<Rightarrow> u16 + add_ip_request"
  ax_key_body :: "bytes \<Rightarrow> u16 + create_key_request"
  ax_upgrade :: "http_request \<Rightarrow> u16 option"

datatype dash_answer =
    Page
  | StatsAnswer stats_response
  | IpsAnswer "ip_entry_view list"
  | NodesAnswer "node_view list"
  | KeysAnswer "key_view list"
  | HealthAnswer json
  | Done json
  | Upgraded
  | StatusAnswer u16

definition answer :: "('a \<Rightarrow> dash_answer) \<Rightarrow> 'a reply \<Rightarrow> dash_answer" where
  "answer f r = (case r of Inl st \<Rightarrow> StatusAnswer st | Inr x \<Rightarrow> f x)"

text \<open>The JSON object of a handler that changed something: \<open>status\<close>, and what it reports.\<close>

definition ok_body :: "(string \<times> string) list \<Rightarrow> dash_answer" where
  "ok_body extra = Done (JObject ((''status'', JString ''ok'') # map (\<lambda>(k, v). (k, JString v)) extra))"

definition answer_state :: "('a \<Rightarrow> dash_answer) \<Rightarrow> 'a reply \<times> 'l dashboard \<Rightarrow> dash_answer \<times> 'l dashboard" where
  "answer_state f r = (answer f (fst r), snd r)"

fun run_handler ::
    "'l dash_env \<Rightarrow> axum \<Rightarrow> instant \<Rightarrow> u64 \<Rightarrow> route_handler \<Rightarrow> string \<Rightarrow> http_request \<Rightarrow> 'l dashboard
     \<Rightarrow> dash_answer \<times> 'l dashboard" where
  "run_handler e ax now now_ms IndexPage param req d = (Page, d)"
| "run_handler e ax now now_ms GetStats param req d = (answer StatsAnswer (get_stats e now (hr_auth req) d), d)"
| "run_handler e ax now now_ms ListIps param req d = (answer IpsAnswer (list_ips e (hr_auth req) d), d)"
| "run_handler e ax now now_ms AddIp param req d =
    (case ax_ip_body ax (hr_body req) of
       Inl st \<Rightarrow> (StatusAnswer st, d)
     | Inr body \<Rightarrow> answer_state (\<lambda>ip. ok_body [(''ip'', de_show_ip e ip)]) (handle_add_ip e (hr_auth req) body d))"
| "run_handler e ax now now_ms UpdateIp param req d =
    (case ax_ip_body ax (hr_body req) of
       Inl st \<Rightarrow> (StatusAnswer st, d)
     | Inr body \<Rightarrow> answer_state (\<lambda>_. ok_body []) (handle_update_ip e (hr_auth req) param body d))"
| "run_handler e ax now now_ms RemoveIp param req d =
    answer_state (\<lambda>ip. ok_body [(''removed'', de_show_ip e ip)]) (handle_remove_ip e (hr_auth req) param d)"
| "run_handler e ax now now_ms ListNodes param req d = (answer NodesAnswer (list_nodes now_ms (hr_auth req) d), d)"
| "run_handler e ax now now_ms ListApiKeys param req d = (answer KeysAnswer (list_api_keys (hr_auth req) d), d)"
| "run_handler e ax now now_ms CreateApiKey param req d =
    (case ax_key_body ax (hr_body req) of
       Inl st \<Rightarrow> (StatusAnswer st, d)
     | Inr body \<Rightarrow> answer_state (\<lambda>key. ok_body [(''key'', key)]) (create_api_key e (hr_auth req) body d))"
| "run_handler e ax now now_ms RevokeApiKey param req d =
    answer_state (\<lambda>_. ok_body []) (revoke_api_key e (hr_auth req) param d)"
| "run_handler e ax now now_ms HealthCheck param req d = (HealthAnswer (health_check now d), d)"
| "run_handler e ax now now_ms WsStats param req d =
    (case ax_upgrade ax req of
       Some st \<Rightarrow> (StatusAnswer st, d)
     | None \<Rightarrow> (answer (\<lambda>_. Upgraded) (ws_stats (hr_auth req) d), d))"

text \<open>The routes whose pattern matches the path are tried for the method: 404 without a matching
  pattern, 405 without a matching method.\<close>

definition dispatch ::
    "'l dash_env \<Rightarrow> axum \<Rightarrow> instant \<Rightarrow> u64 \<Rightarrow> http_request \<Rightarrow> 'l dashboard \<Rightarrow> dash_answer \<times> 'l dashboard" where
  "dispatch e ax now now_ms req d =
    (let matching = filter (\<lambda>(pat, _). ax_match ax pat (hr_path req) \<noteq> None) routes
     in if matching = [] then (StatusAnswer 404, d)
        else (case find (\<lambda>(_, meth, _). meth = hr_method req) matching of
                None \<Rightarrow> (StatusAnswer 405, d)
              | Some (pat, _, handler) \<Rightarrow>
                  run_handler e ax now now_ms handler (the (ax_match ax pat (hr_path req))) req d))"

section \<open>Lemmas\<close>

text \<open>A dispatched request was answered without a handler, or by a handler of the table for its method.\<close>

lemma dispatch_cases:
  obtains (refused) st where "dispatch e ax now now_ms req d = (StatusAnswer st, d)"
  | (handled) pat handler param where "(pat, hr_method req, handler) \<in> set routes"
      "ax_match ax pat (hr_path req) = Some param"
      "dispatch e ax now now_ms req d = run_handler e ax now now_ms handler param req d"
proof (cases "find (\<lambda>(_, meth, _). meth = hr_method req)
    (filter (\<lambda>(pat, _). ax_match ax pat (hr_path req) \<noteq> None) routes)")
  case None
  then have "\<exists>st. dispatch e ax now now_ms req d = (StatusAnswer st, d)" by (auto simp: dispatch_def Let_def)
  then show ?thesis using refused by blast
next
  case (Some r)
  obtain pat meth handler where r: "r = (pat, meth, handler)" by (cases r)
  from Some have "r \<in> set (filter (\<lambda>(pat, _). ax_match ax pat (hr_path req) \<noteq> None) routes)"
    and "(\<lambda>(_, meth, _). meth = hr_method req) r"
    unfolding find_Some_iff by (metis nth_mem)+
  with r obtain param where "(pat, hr_method req, handler) \<in> set routes" "ax_match ax pat (hr_path req) = Some param"
    by auto
  with Some r show ?thesis by (intro handled [of pat handler param]) (auto simp: dispatch_def Let_def)
qed

lemma handler_no_auth:
  assumes "\<not> auth d (hr_auth req)"
  shows "snd (run_handler e ax now now_ms handler param req d) = d
    \<and> (fst (run_handler e ax now now_ms handler param req d) \<in> {Page, HealthAnswer (health_check now d)}
       \<or> (\<exists>st. fst (run_handler e ax now now_ms handler param req d) = StatusAnswer st))"
  using assms
  by (cases handler)
    (auto simp: answer_state_def answer_def get_stats_def list_ips_def list_nodes_def list_api_keys_def ws_stats_def
      handle_add_ip_def handle_update_ip_def handle_remove_ip_def create_api_key_def revoke_api_key_def
      split: sum.splits option.splits)

lemma handler_get_pure:
  "(pat, MGet, handler) \<in> set routes \<Longrightarrow> snd (run_handler e ax now now_ms handler param req d) = d"
  by (auto simp: routes_def split: option.splits)

lemma handler_coherent:
  assumes "coherent d" "generate_api_key (de_random e) \<notin> ak_key ` set (cfg_api_keys (db_config d))"
  shows "coherent (snd (run_handler e ax now now_ms handler param req d))"
  using assms
  by (cases handler)
    (auto simp: answer_state_def coherent_add_ip coherent_update_ip coherent_remove_ip coherent_create coherent_revoke
      split: sum.splits option.splits)

lemma handler_nodes:
  "cfg_nodes (db_config (snd (run_handler e ax now now_ms handler param req d))) = cfg_nodes (db_config d)"
  "cfg_upstream (db_config (snd (run_handler e ax now now_ms handler param req d))) = cfg_upstream (db_config d)"
  by (cases handler; auto simp: answer_state_def handle_add_ip_def handle_update_ip_def handle_remove_ip_def
      create_api_key_def revoke_api_key_def Let_def split: option.splits sum.splits prod.splits if_splits)+

lemma coherent_dispatch:
  assumes "coherent d" "generate_api_key (de_random e) \<notin> ak_key ` set (cfg_api_keys (db_config d))"
  shows "coherent (snd (dispatch e ax now now_ms req d))"
  using assms by (cases rule: dispatch_cases [of e ax now now_ms req d]) (auto simp: handler_coherent)

lemma dispatch_nodes:
  "cfg_nodes (db_config (snd (dispatch e ax now now_ms req d))) = cfg_nodes (db_config d)"
  "cfg_upstream (db_config (snd (dispatch e ax now now_ms req d))) = cfg_upstream (db_config d)"
  by (cases rule: dispatch_cases [of e ax now now_ms req d]; simp add: handler_nodes)+

text \<open>The rest of the shared state: administration leaves the statistics and the nodes alone, keeps the key
  store a map, and leaves the limiters as they were or as the new configuration has them.\<close>

lemma revoke_distinct: "distinct_keys ks \<Longrightarrow> distinct_keys (snd (revoke_key k ks))"
  by (simp add: revoke_key_def distinct_delete Let_def)

lemma add_key_distinct: "distinct_keys ks \<Longrightarrow> distinct_keys (add_key k v ks)"
  by (simp add: add_key_def distinct_update)

lemma admin_frame [simp]:
  "db_stats (persist_config e d) = db_stats d" "db_nodes (persist_config e d) = db_nodes d"
  "db_stats (set_config e c d) = db_stats d" "db_nodes (set_config e c d) = db_nodes d"
  by (simp_all add: persist_config_def set_config_def)

definition admin_effect :: "'l dash_env \<Rightarrow> 'l dashboard \<Rightarrow> 'l dashboard \<Rightarrow> bool" where
  "admin_effect e d d' \<longleftrightarrow> db_stats d' = db_stats d \<and> db_nodes d' = db_nodes d
     \<and> (distinct_keys (db_keys d) \<longrightarrow> distinct_keys (db_keys d'))
     \<and> (db_limiter d' = db_limiter d \<and> db_config d' = db_config d
        \<or> db_limiter d' = new_rate_limiter (de_gov e) (db_config d'))"

lemma handler_effect: "admin_effect e d (snd (run_handler e ax now now_ms handler param req d))"
  by (cases handler; auto simp: admin_effect_def answer_state_def handle_add_ip_def handle_update_ip_def
      handle_remove_ip_def create_api_key_def revoke_api_key_def revoke_distinct add_key_distinct Let_def
      split: option.splits sum.splits prod.splits if_splits)

lemma dispatch_effect: "admin_effect e d (snd (dispatch e ax now now_ms req d))"
  using handler_effect [of e d ax now now_ms]
  by (cases rule: dispatch_cases [of e ax now now_ms req d]) (simp_all add: admin_effect_def)

section \<open>Properties\<close>

text \<open>Property C18. The dashboard's perimeter, from the routing table down: whatever path, method and body a request has,
  it changes the state only with valid credentials and never through GET, and without credentials it
  obtains nothing but the constant page, the health summary or a bare status.\<close>

theorem dashboard_perimeter:
  assumes "dispatch e ax now now_ms req d = (ans, d')"
  shows "(d' \<noteq> d \<longrightarrow> auth d (hr_auth req) \<and> hr_method req \<noteq> MGet)
    \<and> (\<not> auth d (hr_auth req) \<longrightarrow>
         ans \<in> {Page, HealthAnswer (health_check now d)} \<or> (\<exists>st. ans = StatusAnswer st))"
  using assms
proof (cases rule: dispatch_cases [of e ax now now_ms req d])
  case (handled pat handler param)
  with assms have "ans = fst (run_handler e ax now now_ms handler param req d)"
    "d' = snd (run_handler e ax now now_ms handler param req d)" by (metis fst_conv, metis snd_conv)
  with handled show ?thesis
    using handler_no_auth [of d req e ax now now_ms handler param]
      handler_get_pure [of pat handler e ax now now_ms param req d] by auto
qed auto

definition example_axum :: axum where
  "example_axum =
    \<lparr>ax_match = (\<lambda>pat path. if pat = path then Some [] else None), ax_ip_body = (\<lambda>_. Inl 400),
     ax_key_body = (\<lambda>_. Inl 400), ax_upgrade = (\<lambda>_. Some 426)\<rparr>"

definition example_http :: http_request where
  "example_http = \<lparr>hr_method = MGet, hr_path = ''/api/keys'', hr_auth = None, hr_body = []\<rparr>"

theorem dashboard_perimeter_witness:
  "fst (dispatch example_dash_env example_axum 0 0 example_http example_dash) = StatusAnswer 401
   \<and> snd (dispatch example_dash_env example_axum 0 0 example_http example_dash) = example_dash"
proof -
  have no: "\<not> auth example_dash (hr_auth example_http)"
    by (simp add: example_http_def auth_def check_basic_auth_def strip_prefix_def)
  have ans: "fst (dispatch example_dash_env example_axum 0 0 example_http example_dash) = StatusAnswer 401"
    using no by (simp add: dispatch_def routes_def example_axum_def example_http_def list_api_keys_def answer_def)
  have "dispatch example_dash_env example_axum 0 0 example_http example_dash
      = (fst (dispatch example_dash_env example_axum 0 0 example_http example_dash),
         snd (dispatch example_dash_env example_axum 0 0 example_http example_dash))" by simp
  from dashboard_perimeter [OF this] no ans show ?thesis by blast
qed

end
