(* ===== verification/Grpc_Pool.thy ===== *)
theory Grpc_Pool
  imports Config
begin

text \<open>
  The pool of upstream gRPC channels (\<open>src/src/cluster/grpc_pool.rs\<close>). A managed channel is shared by
  many tasks, each running \<open>get\<close> or \<open>reconnect\<close>; the model is the interleaving of their atomic
  operations (loads and stores of the channel cell, the compare-exchange on \<open>connecting\<close>, the
  notification) with invalidation and with the cancellation of a task at an await point. The
  endpoint's \<open>connect\<close> is an input: any outcome may be delivered.
\<close>

section \<open>Data\<close>

type_synonym channel = nat

record endpoint =
  ep_uri :: string
  ep_tcp_nodelay :: bool
  ep_tcp_keepalive_secs :: "nat option"
  ep_http2_adaptive_window :: bool
  ep_http2_keep_alive_interval_secs :: nat
  ep_keep_alive_timeout_secs :: nat
  ep_keep_alive_while_idle :: bool
  ep_initial_connection_window_size :: u32
  ep_initial_stream_window_size :: u32
  ep_connect_timeout_secs :: nat

text \<open>Where a task stands inside \<open>get\<close> or \<open>reconnect\<close>.\<close>

datatype call_phase =
    Idle \<comment> \<open>about to load the channel in \<open>get\<close>\<close>
  | AtCas \<comment> \<open>about to compare-exchange \<open>connecting\<close>\<close>
  | LostRace \<comment> \<open>the exchange failed; the \<open>Notified\<close> future does not exist yet\<close>
  | Waiting \<comment> \<open>awaiting the notification, under the ten second timeout\<close>
  | Woken
  | Connecting \<comment> \<open>awaiting \<open>endpoint.connect\<close>\<close>
  | Connected channel
  | ConnectFailed string
  | Stored channel
  | Released "string + channel" \<comment> \<open>\<open>connecting\<close> cleared, waiters not yet notified\<close>
  | Finished "string + channel"
  | Dropped \<comment> \<open>the future was dropped at an await point\<close>

record managed_channel =
  mc_node_id :: string
  mc_endpoint :: endpoint
  mc_channel :: "channel option"
  mc_connecting :: bool
  mc_calls :: "nat \<Rightarrow> call_phase"

section \<open>Operations\<close>

text \<open>\<open>from_shared\<close> parses the URL; the builder then fixes the transport settings.\<close>

definition new_managed_channel :: "(string \<Rightarrow> string + string) \<Rightarrow> string \<Rightarrow> string \<Rightarrow> string + managed_channel" where
  "new_managed_channel from_shared node_id url =
    (case from_shared url of
       Inl e \<Rightarrow> Inl (''Invalid gRPC URL for '' @ node_id @ '': '' @ e)
     | Inr uri \<Rightarrow> Inr
         \<lparr>mc_node_id = node_id,
          mc_endpoint =
            \<lparr>ep_uri = uri, ep_tcp_nodelay = True, ep_tcp_keepalive_secs = Some 30,
             ep_http2_adaptive_window = True, ep_http2_keep_alive_interval_secs = 10,
             ep_keep_alive_timeout_secs = 20, ep_keep_alive_while_idle = True,
             ep_initial_connection_window_size = 8 * 1024 * 1024,
             ep_initial_stream_window_size = 4 * 1024 * 1024,
             ep_connect_timeout_secs = 5\<rparr>,
          mc_channel = None, mc_connecting = False, mc_calls = (\<lambda>_. Idle)\<rparr>)"

definition at :: "nat \<Rightarrow> call_phase \<Rightarrow> managed_channel \<Rightarrow> managed_channel" where
  "at t p m = m\<lparr>mc_calls := (mc_calls m)(t := p)\<rparr>"

definition connect_failed_msg :: "managed_channel \<Rightarrow> string \<Rightarrow> string" where
  "connect_failed_msg m e = ''gRPC connect failed for '' @ mc_node_id m @ '': '' @ e"

definition reconnect_failed_msg :: "managed_channel \<Rightarrow> string" where
  "reconnect_failed_msg m = ''gRPC reconnect failed for '' @ mc_node_id m"

definition reconnect_timeout_msg :: "managed_channel \<Rightarrow> string" where
  "reconnect_timeout_msg m = ''gRPC reconnect timed out for '' @ mc_node_id m"

text \<open>\<open>notify_waiters\<close> wakes every task whose \<open>Notified\<close> future exists.\<close>

definition notify_waiters :: "managed_channel \<Rightarrow> managed_channel" where
  "notify_waiters m = m\<lparr>mc_calls := (\<lambda>t. if mc_calls m t = Waiting then Woken else mc_calls m t)\<rparr>"

definition invalidate :: "managed_channel \<Rightarrow> managed_channel" where
  "invalidate m = m\<lparr>mc_channel := None\<rparr>"

text \<open>The atomic steps of \<open>get\<close>, \<open>reconnect\<close> and \<open>invalidate\<close>; \<open>usable\<close> says which channels
  \<open>connect\<close> can return.\<close>

inductive call_step :: "(channel \<Rightarrow> bool) \<Rightarrow> managed_channel \<Rightarrow> managed_channel \<Rightarrow> bool" for usable where
  get_hit: "mc_calls m t = Idle \<Longrightarrow> mc_channel m = Some ch \<Longrightarrow> call_step usable m (at t (Finished (Inr ch)) m)"
| get_miss: "mc_calls m t = Idle \<Longrightarrow> mc_channel m = None \<Longrightarrow> call_step usable m (at t AtCas m)"
| cas_win: "mc_calls m t = AtCas \<Longrightarrow> \<not> mc_connecting m \<Longrightarrow>
    call_step usable m (at t Connecting (m\<lparr>mc_connecting := True\<rparr>))"
| cas_lose: "mc_calls m t = AtCas \<Longrightarrow> mc_connecting m \<Longrightarrow> call_step usable m (at t LostRace m)"
| register: "mc_calls m t = LostRace \<Longrightarrow> call_step usable m (at t Waiting m)"
| woken: "mc_calls m t = Woken \<Longrightarrow>
    call_step usable m (at t (Finished (case mc_channel m of Some ch \<Rightarrow> Inr ch
      | None \<Rightarrow> Inl (reconnect_failed_msg m))) m)"
| timed_out: "mc_calls m t = Waiting \<Longrightarrow> call_step usable m (at t (Finished (Inl (reconnect_timeout_msg m))) m)"
| connect_ok: "mc_calls m t = Connecting \<Longrightarrow> usable ch \<Longrightarrow> call_step usable m (at t (Connected ch) m)"
| connect_err: "mc_calls m t = Connecting \<Longrightarrow> call_step usable m (at t (ConnectFailed e) m)"
| store: "mc_calls m t = Connected ch \<Longrightarrow> call_step usable m (at t (Stored ch) (m\<lparr>mc_channel := Some ch\<rparr>))"
| release_ok: "mc_calls m t = Stored ch \<Longrightarrow>
    call_step usable m (at t (Released (Inr ch)) (m\<lparr>mc_connecting := False\<rparr>))"
| release_err: "mc_calls m t = ConnectFailed e \<Longrightarrow>
    call_step usable m (at t (Released (Inl (connect_failed_msg m e))) (m\<lparr>mc_connecting := False\<rparr>))"
| notify: "mc_calls m t = Released r \<Longrightarrow> call_step usable m (notify_waiters (at t (Finished r) m))"
| invalidated: "call_step usable m (invalidate m)"

text \<open>A future dropped by its owner disappears at one of its await points.\<close>

inductive cancel_step :: "managed_channel \<Rightarrow> managed_channel \<Rightarrow> bool" where
  dropped: "mc_calls m t \<in> {Waiting, Woken, Connecting} \<Longrightarrow> cancel_step m (at t Dropped m)"

inductive_cases call_stepE: "call_step usable m m'"
inductive_cases cancel_stepE: "cancel_step m m'"

definition channel_step :: "(channel \<Rightarrow> bool) \<Rightarrow> managed_channel \<Rightarrow> managed_channel \<Rightarrow> bool" where
  "channel_step usable m m' \<longleftrightarrow> call_step usable m m' \<or> cancel_step m m'"

definition fresh :: "managed_channel \<Rightarrow> bool" where
  "fresh m \<longleftrightarrow> mc_channel m = None \<and> \<not> mc_connecting m \<and> mc_calls m = (\<lambda>_. Idle)"

section \<open>The pool\<close>

type_synonym grpc_pool = "(string \<times> managed_channel) list"

definition new_grpc_pool :: "(string \<Rightarrow> string + string) \<Rightarrow> node_config list \<Rightarrow> string list \<Rightarrow> grpc_pool" where
  "new_grpc_pool from_shared nodes eligible_ids =
    fold (\<lambda>node channels.
        if nc_id node \<in> set eligible_ids
        then (case new_managed_channel from_shared (nc_id node) (nc_grpc_url node) of
                Inr ch \<Rightarrow> AList.update (nc_id node) ch channels
              | Inl e \<Rightarrow> channels)
        else channels) nodes []"

definition get_channel :: "grpc_pool \<Rightarrow> string \<Rightarrow> managed_channel option" where
  "get_channel pool node_id = map_of pool node_id"

definition pool_invalidate :: "string \<Rightarrow> grpc_pool \<Rightarrow> grpc_pool" where
  "pool_invalidate node_id pool =
    (case map_of pool node_id of Some ch \<Rightarrow> AList.update node_id (invalidate ch) pool | None \<Rightarrow> pool)"

section \<open>Lemmas\<close>

lemma at_simps [simp]:
  "mc_channel (at t p m) = mc_channel m" "mc_connecting (at t p m) = mc_connecting m"
  "mc_node_id (at t p m) = mc_node_id m"
  "mc_calls (at t p m) t' = (if t' = t then p else mc_calls m t')"
  by (simp_all add: at_def)

lemma notify_simps [simp]:
  "mc_channel (notify_waiters m) = mc_channel m" "mc_connecting (notify_waiters m) = mc_connecting m"
  "mc_calls (notify_waiters m) t = (if mc_calls m t = Waiting then Woken else mc_calls m t)"
  by (simp_all add: notify_waiters_def)

lemma invalidate_simps [simp]:
  "mc_channel (invalidate m) = None" "mc_connecting (invalidate m) = mc_connecting m"
  "mc_calls (invalidate m) = mc_calls m"
  by (simp_all add: invalidate_def)

text \<open>The phases in which a task owns the \<open>connecting\<close> flag.\<close>

fun holds :: "call_phase \<Rightarrow> bool" where
  "holds Connecting = True"
| "holds (Connected _) = True"
| "holds (ConnectFailed _) = True"
| "holds (Stored _) = True"
| "holds _ = False"

definition holders :: "managed_channel \<Rightarrow> nat set" where
  "holders m = {t. holds (mc_calls m t)}"

lemma holders_simps [simp]:
  "holders (at t p m) = (if holds p then insert t (holders m) else holders m - {t})"
  "holders (notify_waiters m) = holders m" "holders (invalidate m) = holders m"
  "holders (m\<lparr>mc_channel := c\<rparr>) = holders m" "holders (m\<lparr>mc_connecting := b\<rparr>) = holders m"
  by (auto simp: holders_def)

lemma calls_holders: "mc_calls m t = p \<Longrightarrow> t \<in> holders m \<longleftrightarrow> holds p"
  by (simp add: holders_def)

definition single_flight :: "managed_channel \<Rightarrow> bool" where
  "single_flight m \<longleftrightarrow> holders m = {} \<or> mc_connecting m \<and> (\<exists>t. holders m = {t})"

definition exact_flight :: "managed_channel \<Rightarrow> bool" where
  "exact_flight m \<longleftrightarrow> (if mc_connecting m then \<exists>t. holders m = {t} else holders m = {})"

lemma exact_flight_step: "exact_flight m \<Longrightarrow> call_step usable m m' \<Longrightarrow> exact_flight m'"
  by (erule call_stepE; (frule calls_holders)?) (auto simp: exact_flight_def split: if_splits)

lemma single_flight_step: "single_flight m \<Longrightarrow> channel_step usable m m' \<Longrightarrow> single_flight m'"
  unfolding channel_step_def
  by (erule disjE; (erule call_stepE | erule cancel_stepE); (frule calls_holders)?)
    (auto simp: single_flight_def)

lemma fresh_flight: "fresh m \<Longrightarrow> single_flight m \<and> exact_flight m"
  by (simp add: fresh_def single_flight_def exact_flight_def holders_def)

interpretation flight: step_invariant fresh "channel_step usable" single_flight
  by unfold_locales (auto simp: fresh_flight single_flight_step)

interpretation calm_flight: step_invariant fresh "call_step usable" exact_flight
  by unfold_locales (auto simp: fresh_flight exact_flight_step)

text \<open>Channels in circulation.\<close>

fun phase_channel :: "call_phase \<Rightarrow> channel option" where
  "phase_channel (Connected ch) = Some ch"
| "phase_channel (Stored ch) = Some ch"
| "phase_channel (Released (Inr ch)) = Some ch"
| "phase_channel (Finished (Inr ch)) = Some ch"
| "phase_channel _ = None"

definition channels_usable :: "(channel \<Rightarrow> bool) \<Rightarrow> managed_channel \<Rightarrow> bool" where
  "channels_usable usable m \<longleftrightarrow> (\<forall>ch. mc_channel m = Some ch \<longrightarrow> usable ch)
     \<and> (\<forall>t ch. phase_channel (mc_calls m t) = Some ch \<longrightarrow> usable ch)"

lemma phase_channel_Released [simp]: "phase_channel (Released r) = phase_channel (Finished r)"
  by (cases r) simp_all

lemma usable_at:
  "channels_usable usable m \<Longrightarrow> (\<And>ch. phase_channel p = Some ch \<Longrightarrow> usable ch) \<Longrightarrow> channels_usable usable (at t p m)"
  by (simp add: channels_usable_def)

lemma usable_frame:
  "channels_usable usable m \<Longrightarrow> channels_usable usable (m\<lparr>mc_connecting := b\<rparr>)"
  "channels_usable usable m \<Longrightarrow> channels_usable usable (invalidate m)"
  "channels_usable usable m \<Longrightarrow> channels_usable usable (notify_waiters m)"
  "channels_usable usable m \<Longrightarrow> usable ch \<Longrightarrow> channels_usable usable (m\<lparr>mc_channel := Some ch\<rparr>)"
  by (auto simp: channels_usable_def split: if_splits)

lemma usable_phase: "channels_usable usable m \<Longrightarrow> mc_calls m t = p \<Longrightarrow> phase_channel p = Some ch \<Longrightarrow> usable ch"
  by (auto simp: channels_usable_def)

lemma channels_usable_step:
  assumes u: "channels_usable usable m" and "channel_step usable m m'"
  shows "channels_usable usable m'"
proof -
  have cell: "mc_channel m = Some ch \<Longrightarrow> usable ch" for ch using u by (simp add: channels_usable_def)
  from assms(2) consider "call_step usable m m'" | "cancel_step m m'" by (auto simp: channel_step_def)
  then show ?thesis
  proof cases
    case 1
    then show ?thesis
      by (cases rule: call_step.cases)
        (auto intro!: usable_at usable_frame u intro: cell usable_phase [OF u] split: option.splits)
  next
    case 2
    then show ?thesis by (auto elim!: cancel_stepE intro!: usable_at u)
  qed
qed

interpretation usable_flow: step_invariant fresh "channel_step usable" "channels_usable usable"
  by unfold_locales (auto simp: channels_usable_step, simp add: fresh_def channels_usable_def)

text \<open>A flag held by nobody: no step ever clears it, and with an empty cell none ever fills it.\<close>

definition wedged :: "managed_channel \<Rightarrow> bool" where
  "wedged m \<longleftrightarrow> mc_connecting m \<and> holders m = {} \<and> mc_channel m = None"

lemma wedged_step: "wedged m \<Longrightarrow> channel_step usable m m' \<Longrightarrow> wedged m'"
  unfolding channel_step_def
  by (erule disjE; (erule call_stepE | erule cancel_stepE); (frule calls_holders)?) (auto simp: wedged_def)

interpretation wedge: step_invariant wedged "channel_step usable" wedged
  by unfold_locales (auto simp: wedged_step)

text \<open>Under a wedge, a task that holds no channel never gets one.\<close>

definition starved :: "nat \<Rightarrow> managed_channel \<Rightarrow> bool" where
  "starved t m \<longleftrightarrow> wedged m \<and> phase_channel (mc_calls m t) = None"

lemma starved_step: "starved t m \<Longrightarrow> channel_step usable m m' \<Longrightarrow> starved t m'"
  unfolding channel_step_def
  by (erule disjE; (erule call_stepE | erule cancel_stepE); (frule calls_holders)?)
    (auto simp: starved_def wedged_def)

interpretation starvation: step_invariant "starved t" "channel_step usable" "starved t"
  by unfold_locales (auto simp: starved_step)

text \<open>The flag's owner can always run on to release it, and then any idle task can connect.\<close>

lemma call_steps_trans:
  "call_step usable a b \<Longrightarrow> (call_step usable)\<^sup>*\<^sup>* b c \<Longrightarrow> (call_step usable)\<^sup>*\<^sup>* a c"
  by (rule converse_rtranclp_into_rtranclp)

lemma idle_task_connects:
  assumes "mc_calls m t = AtCas" "\<not> mc_connecting m" "usable ch"
  shows "\<exists>m'. (call_step usable)\<^sup>*\<^sup>* m m' \<and> mc_calls m' t = Finished (Inr ch)"
proof -
  define a b c d e where "a = at t Connecting (m\<lparr>mc_connecting := True\<rparr>)" and "b = at t (Connected ch) a"
    and "c = at t (Stored ch) (b\<lparr>mc_channel := Some ch\<rparr>)"
    and "d = at t (Released (Inr ch)) (c\<lparr>mc_connecting := False\<rparr>)"
    and "e = notify_waiters (at t (Finished (Inr ch)) d)"
  note defs = this
  have "mc_calls a t = Connecting" "mc_calls b t = Connected ch" "mc_calls c t = Stored ch"
    "mc_calls d t = Released (Inr ch)" and e: "mc_calls e t = Finished (Inr ch)"
    by (simp_all add: defs)
  then have "call_step usable m a" "call_step usable a b" "call_step usable b c" "call_step usable c d"
    "call_step usable d e"
    unfolding defs using assms by (auto intro: call_step.intros)
  then have "(call_step usable)\<^sup>*\<^sup>* m e" by (meson call_steps_trans rtranclp.rtrancl_refl)
  with e show ?thesis by blast
qed

lemma owner_releases:
  assumes "exact_flight m" "mc_calls m t = AtCas"
  shows "\<exists>m'. (call_step usable)\<^sup>*\<^sup>* m m' \<and> \<not> mc_connecting m' \<and> mc_calls m' t = AtCas"
proof (cases "mc_connecting m")
  case True
  then obtain h where "holders m = {h}" using assms(1) by (auto simp: exact_flight_def)
  then have hh: "holds (mc_calls m h)" by (auto simp: holders_def)
  then have "h \<noteq> t" using assms(2) by auto
  have stored: "\<exists>m'. (call_step usable)\<^sup>*\<^sup>* n m' \<and> \<not> mc_connecting m' \<and> mc_calls m' t = AtCas"
    if "mc_calls n h = Stored ch" "mc_calls n t = AtCas" for n ch
    using release_ok [OF that(1)] \<open>h \<noteq> t\<close> that(2)
    by (intro exI [of _ "at h (Released (Inr ch)) (n\<lparr>mc_connecting := False\<rparr>)"]) auto
  have failed: "\<exists>m'. (call_step usable)\<^sup>*\<^sup>* n m' \<and> \<not> mc_connecting m' \<and> mc_calls m' t = AtCas"
    if "mc_calls n h = ConnectFailed e" "mc_calls n t = AtCas" for n e
    using release_err [OF that(1)] \<open>h \<noteq> t\<close> that(2)
    by (intro exI [of _ "at h (Released (Inl (connect_failed_msg n e))) (n\<lparr>mc_connecting := False\<rparr>)"]) auto
  show ?thesis
  proof (cases "mc_calls m h")
    case Connecting
    with failed [of "at h (ConnectFailed []) m" "[]"] \<open>h \<noteq> t\<close> assms(2) show ?thesis
      using call_steps_trans [OF connect_err [OF Connecting, where e = "[]"]] by auto
  next
    case (Connected ch)
    with stored [of "at h (Stored ch) (m\<lparr>mc_channel := Some ch\<rparr>)" ch] \<open>h \<noteq> t\<close> assms(2) show ?thesis
      using call_steps_trans [OF store [OF Connected]] by auto
  qed (use hh stored failed assms(2) in auto)
qed (use assms in auto)

section \<open>Properties\<close>

text \<open>Property C26. One connection attempt at a time: in every interleaving of callers, invalidations
  and cancellations, at most one task is inside \<open>endpoint.connect\<close>, and every channel stored or
  handed to a caller is one that \<open>connect\<close> returned.\<close>

theorem channel_single_flight:
  assumes "reach fresh (channel_step usable) m"
  shows "(mc_calls m t = Connecting \<and> mc_calls m t' = Connecting \<longrightarrow> t = t')
    \<and> (mc_channel m = Some ch \<longrightarrow> usable ch) \<and> (mc_calls m t = Finished (Inr ch) \<longrightarrow> usable ch)"
proof -
  have f: "single_flight m" and u: "channels_usable usable m"
    using assms by (rule flight.inv_reach, rule usable_flow.inv_reach)
  have "t = t'" if "mc_calls m t = Connecting" "mc_calls m t' = Connecting"
  proof -
    have "t \<in> holders m" "t' \<in> holders m" using that by (simp_all add: holders_def)
    then show ?thesis using f by (auto simp: single_flight_def)
  qed
  then show ?thesis using u usable_phase [OF u] by (auto simp: channels_usable_def)
qed

definition example_channel :: managed_channel where
  "example_channel = projr (new_managed_channel Inr ''n'' ''http://n'')"

lemma example_channel_simps [simp]:
  "mc_channel example_channel = None" "\<not> mc_connecting example_channel" "mc_calls example_channel = (\<lambda>_. Idle)"
  by (simp_all add: example_channel_def new_managed_channel_def)

lemma fresh_example: "fresh example_channel"
  by (simp add: fresh_def)

definition example_connecting :: managed_channel where
  "example_connecting = at 0 Connecting ((at 0 AtCas example_channel)\<lparr>mc_connecting := True\<rparr>)"

lemma example_connecting_reach: "reach fresh (call_step usable) example_connecting"
proof -
  have "reach fresh (call_step usable) (at 0 AtCas example_channel)"
    by (rule reach.step [OF reach.start [of fresh, OF fresh_example]]) (rule get_miss, simp_all)
  then show ?thesis unfolding example_connecting_def by (rule reach.step) (rule cas_win, simp_all)
qed

lemma reach_channel_step: "reach fresh (call_step usable) m \<Longrightarrow> reach fresh (channel_step usable) m"
  by (induction rule: reach.induct) (auto intro: reach.intros simp: channel_step_def)

theorem channel_single_flight_witness:
  "mc_calls example_connecting 0 = Connecting \<and> mc_calls example_connecting 1 \<noteq> Connecting"
  using channel_single_flight [OF reach_channel_step [OF example_connecting_reach [of "\<lambda>_. True"]], of 0 1]
  by (auto simp: example_connecting_def)

text \<open>Property C27. No caller is locked out while connection attempts run to completion: in every
  reachable state where no call was cancelled, a task that calls \<open>get\<close> can still obtain a channel,
  whatever the other tasks are doing.\<close>

theorem get_can_succeed:
  assumes "reach fresh (call_step usable) m" "mc_calls m t = Idle" "usable ch"
  shows "\<exists>m' ch'. (call_step usable)\<^sup>*\<^sup>* m m' \<and> mc_calls m' t = Finished (Inr ch')"
proof (cases "mc_channel m")
  case (Some c)
  then have "call_step usable m (at t (Finished (Inr c)) m)" by (rule get_hit [OF assms(2)])
  then show ?thesis
    by (intro exI [of _ "at t (Finished (Inr c)) m"] exI [of _ c]) (simp add: r_into_rtranclp)
next
  case None
  let ?m = "at t AtCas m"
  have st: "call_step usable m ?m" by (rule get_miss [OF assms(2) None])
  have ex: "exact_flight ?m" using calm_flight.inv_reach [OF reach.step [OF assms(1) st]] .
  have "mc_calls ?m t = AtCas" by simp
  from owner_releases [OF ex this] obtain n where
    n: "(call_step usable)\<^sup>*\<^sup>* ?m n" "\<not> mc_connecting n" "mc_calls n t = AtCas" by blast
  from idle_task_connects [of n t usable ch, OF n(3,2) assms(3)] obtain m' where
    "(call_step usable)\<^sup>*\<^sup>* n m'" "mc_calls m' t = Finished (Inr ch)" by blast
  with n(1) st show ?thesis by (meson call_steps_trans rtranclp_trans)
qed

theorem get_can_succeed_witness:
  "\<exists>m' ch'. (call_step (\<lambda>_. True))\<^sup>*\<^sup>* example_connecting m' \<and> mc_calls m' 1 = Finished (Inr ch')"
  by (rule get_can_succeed [OF example_connecting_reach]) (simp_all add: example_connecting_def)

text \<open>Property C28. A cancelled connection attempt locks the node out: if the task inside \<open>connect\<close> is
  dropped while no channel is stored, the \<open>connecting\<close> flag stays set in every later state, no channel
  is ever stored again, and no later call of \<open>get\<close> ever returns a channel.\<close>

theorem cancelled_connect_wedges:
  assumes "reach fresh (channel_step usable) m" "mc_calls m t = Connecting" "mc_channel m = None"
    and "(channel_step usable)\<^sup>*\<^sup>* (at t Dropped m) m'"
  shows "cancel_step m (at t Dropped m)
    \<and> mc_connecting m' \<and> mc_channel m' = None
    \<and> (mc_calls m t' = Idle \<longrightarrow> (\<nexists>ch. mc_calls m' t' = Finished (Inr ch)))"
proof -
  have "t \<in> holders m" using assms(2) by (simp add: holders_def)
  with flight.inv_reach [OF assms(1)] have "holders m = {t}" "mc_connecting m"
    by (auto simp: single_flight_def)
  then have w: "wedged (at t Dropped m)" using assms(3) by (simp add: wedged_def)
  have "wedged m'" by (rule wedge.inv_steps [OF assms(4) w])
  moreover have "\<nexists>ch. mc_calls m' t' = Finished (Inr ch)" if "mc_calls m t' = Idle"
  proof -
    have "starved t' (at t Dropped m)" using w that by (simp add: starved_def)
    then have "starved t' m'" by (rule starvation.inv_steps [OF assms(4)])
    then show ?thesis by (auto simp: starved_def)
  qed
  ultimately show ?thesis using assms(2) by (auto simp: wedged_def intro: dropped)
qed

theorem cancelled_connect_wedges_witness:
  "mc_connecting (at 0 Dropped example_connecting) \<and> mc_channel (at 0 Dropped example_connecting) = None"
proof -
  have "mc_calls example_connecting 0 = Connecting" "mc_channel example_connecting = None"
    by (simp_all add: example_connecting_def)
  from cancelled_connect_wedges [OF reach_channel_step [OF example_connecting_reach [of "\<lambda>_. True"]] this
      rtranclp.rtrancl_refl] show ?thesis by blast
qed

lemma pool_fold_lookup:
  "map_of (fold (\<lambda>node channels.
        if nc_id node \<in> set eligible_ids
        then (case new_managed_channel from_shared (nc_id node) (nc_grpc_url node) of
                Inr ch \<Rightarrow> AList.update (nc_id node) ch channels
              | Inl e \<Rightarrow> channels)
        else channels) nodes al) i \<noteq> None
     \<longleftrightarrow> map_of al i \<noteq> None \<or> (\<exists>n \<in> set nodes. nc_id n = i \<and> i \<in> set eligible_ids
           \<and> (\<exists>uri. from_shared (nc_grpc_url n) = Inr uri))"
  by (induction nodes arbitrary: al)
    (auto simp: alist_simps new_managed_channel_def split: sum.splits if_splits)

text \<open>The pool has a channel for exactly the eligible nodes whose URL is valid, and
  invalidating one node's channel empties that channel and leaves every other node's alone.\<close>

theorem pool_channels:
  "(get_channel (new_grpc_pool from_shared nodes ids) i \<noteq> None \<longleftrightarrow>
      (\<exists>n \<in> set nodes. nc_id n = i \<and> i \<in> set ids \<and> (\<exists>uri. from_shared (nc_grpc_url n) = Inr uri)))
    \<and> get_channel (pool_invalidate i pool) j
        = (if j = i then map_option invalidate (get_channel pool i) else get_channel pool j)"
proof -
  have "get_channel (pool_invalidate i pool) j
        = (if j = i then map_option invalidate (get_channel pool i) else get_channel pool j)"
    by (auto simp: get_channel_def pool_invalidate_def alist_simps split: option.splits)
  then show ?thesis
    by (simp only: get_channel_def new_grpc_pool_def pool_fold_lookup) simp
qed

end
