(* ===== verification/Geyser.thy ===== *)
theory Geyser
  imports Prelude
begin

text \<open>
  The messages of the Geyser service (\<open>src/proto/geyser.proto\<close>, \<open>src/proto/solana-storage.proto\<close>) that
  the gRPC proxies read, build and forward. Protobuf maps are association lists with the entries in
  iteration order, optional fields are options, enums are their 32-bit wire value, messages are
  records; message fields that the proxy never inspects (block contents, transaction instructions,
  balances, certificates) are left out.
\<close>

section \<open>Requests\<close>

record cuckoo_filter =
  cf_data :: bytes
  cf_bucket_count :: u32
  cf_entries_per_bucket :: u32
  cf_fingerprint_bits :: u32
  cf_hash_seed :: u64
  cf_hash_algorithm :: i32

datatype memcmp_data = MBytes bytes | MBase58 string | MBase64 string

datatype lamports_cmp = LEq u64 | LNe u64 | LLt u64 | LGt u64

datatype accounts_filter_filter =
    FMemcmp u64 "memcmp_data option"
  | FDatasize u64
  | FTokenAccountState bool
  | FLamports "lamports_cmp option"

record accounts_filter =
  af_account :: "string list"
  af_owner :: "string list"
  af_filters :: "accounts_filter_filter option list"
  af_nonempty_txn_signature :: "bool option"
  af_cuckoo_accounts_filter :: "cuckoo_filter option"

record slots_filter =
  sf_filter_by_commitment :: "bool option"
  sf_interslot_updates :: "bool option"

record transactions_filter =
  tf_vote :: "bool option"
  tf_failed :: "bool option"
  tf_signature :: "string option"
  tf_account_include :: "string list"
  tf_account_exclude :: "string list"
  tf_account_required :: "string list"
  tf_cuckoo_account_include :: "cuckoo_filter option"
  tf_token_accounts :: "i32 option"

record blocks_filter =
  bf_account_include :: "string list"
  bf_include_transactions :: "bool option"
  bf_include_accounts :: "bool option"
  bf_include_entries :: "bool option"
  bf_cuckoo_account_include :: "cuckoo_filter option"

record entry_filter =
  ef_include_update_parent :: "bool option"

record block_footer_filter =
  ff_include_certificates :: "bool option"

record subscribe_request =
  sr_accounts :: "(string \<times> accounts_filter) list"
  sr_slots :: "(string \<times> slots_filter) list"
  sr_transactions :: "(string \<times> transactions_filter) list"
  sr_transactions_status :: "(string \<times> transactions_filter) list"
  sr_blocks :: "(string \<times> blocks_filter) list"
  sr_blocks_meta :: "(string \<times> unit) list"
  sr_entry :: "(string \<times> entry_filter) list"
  sr_commitment :: "i32 option"
  sr_accounts_data_slice :: "(u64 \<times> u64) list"
  sr_ping :: "i32 option"
  sr_from_slot :: "u64 option"
  sr_block_footer :: "(string \<times> block_footer_filter) list"

definition default_subscribe_request :: subscribe_request where
  "default_subscribe_request =
    \<lparr>sr_accounts = [], sr_slots = [], sr_transactions = [], sr_transactions_status = [], sr_blocks = [],
     sr_blocks_meta = [], sr_entry = [], sr_commitment = None, sr_accounts_data_slice = [],
     sr_ping = None, sr_from_slot = None, sr_block_footer = []\<rparr>"

definition default_transactions_filter :: transactions_filter where
  "default_transactions_filter =
    \<lparr>tf_vote = None, tf_failed = None, tf_signature = None, tf_account_include = [],
     tf_account_exclude = [], tf_account_required = [], tf_cuckoo_account_include = None,
     tf_token_accounts = None\<rparr>"

section \<open>Updates\<close>

record message =
  msg_account_keys :: "bytes list"

record transaction =
  tr_signatures :: "bytes list"
  tr_message :: "message option"

record transaction_status_meta =
  tm_err :: "bytes option"
  tm_loaded_writable_addresses :: "bytes list"
  tm_loaded_readonly_addresses :: "bytes list"

record transaction_info =
  ti_signature :: bytes
  ti_is_vote :: bool
  ti_transaction :: "transaction option"
  ti_meta :: "transaction_status_meta option"
  ti_index :: u64

record transaction_update =
  tu_transaction :: "transaction_info option"
  tu_slot :: u64
  tu_bank_id :: u64

record transaction_status_update =
  ts_slot :: u64
  ts_signature :: bytes
  ts_is_vote :: bool
  ts_index :: u64

record account_update =
  au_pubkey :: "bytes option"
  au_slot :: u64
  au_is_startup :: bool

record slot_update =
  su_slot :: u64
  su_parent :: "u64 option"
  su_status :: i32
  su_dead_error :: "string option"
  su_bank_id :: "u64 option"

record block_update =
  bu_slot :: u64
  bu_blockhash :: string

record block_meta_update =
  bm_slot :: u64
  bm_blockhash :: string
  bm_bank_id :: u64

record entry_update =
  eu_slot :: u64
  eu_index :: u64
  eu_hash :: bytes

record block_footer_update =
  fu_slot :: u64
  fu_bank_hash :: bytes

record entry_update_parent =
  ep_slot :: u64
  ep_parent_slot :: u64

datatype update_oneof =
    UAccount account_update
  | USlot slot_update
  | UTransaction transaction_update
  | UTransactionStatus transaction_status_update
  | UBlock block_update
  | UPing
  | UPong i32
  | UBlockMeta block_meta_update
  | UEntry entry_update
  | UBlockFooter block_footer_update
  | UEntryUpdateParent entry_update_parent

record subscribe_update =
  up_filters :: "string list"
  up_oneof :: "update_oneof option"
  up_created_at :: "nat option"

definition is_pong :: "subscribe_update \<Rightarrow> bool" where
  "is_pong u \<longleftrightarrow> (case up_oneof u of Some (UPong _) \<Rightarrow> True | _ \<Rightarrow> False)"

end
