(* ===== verification/Grpc_Filter.thy ===== *)
theory Grpc_Filter
  imports Geyser
begin

text \<open>
  Client-side filtering of the multiplexed stream (\<open>src/src/proxy/grpc_filter.rs\<close>): a client's request
  is compiled once and every update of the shared upstream stream is matched against the compiled
  form. Base58 decoding (the \<open>bs58\<close> crate) is the parameter \<open>decode\<close>.
\<close>

section \<open>Compiled filters\<close>

record compiled_tx_filter =
  ct_vote :: "bool option"
  ct_failed :: "bool option"
  ct_signature :: "bytes option"
  ct_account_include :: "bytes set"
  ct_account_exclude :: "bytes set"
  ct_account_required :: "bytes set"

record compiled_slot_filter =
  cs_filter_by_commitment :: "bool option"

record compiled_filters =
  cf_transactions :: "(string \<times> compiled_tx_filter) list"
  cf_slots :: "(string \<times> compiled_slot_filter) list"
  cf_blocks_meta :: "string list"
  cf_entry :: "string list"
  cf_block_footer :: "string list"
  cf_has_accounts :: bool
  cf_has_blocks :: bool
  cf_has_transactions_status :: bool
  cf_has_unsupported_options :: bool

type_synonym decoder = "string \<Rightarrow> bytes option"

definition decode_b58_set :: "decoder \<Rightarrow> string list \<Rightarrow> bytes set" where
  "decode_b58_set decode keys = set (List.map_filter decode keys)"

definition compile_tx_filter :: "decoder \<Rightarrow> transactions_filter \<Rightarrow> compiled_tx_filter" where
  "compile_tx_filter decode f =
    \<lparr>ct_vote = tf_vote f, ct_failed = tf_failed f,
     ct_signature = Option.bind (tf_signature f) decode,
     ct_account_include = decode_b58_set decode (tf_account_include f),
     ct_account_exclude = decode_b58_set decode (tf_account_exclude f),
     ct_account_required = decode_b58_set decode (tf_account_required f)\<rparr>"

definition from_request :: "decoder \<Rightarrow> subscribe_request \<Rightarrow> compiled_filters" where
  "from_request decode req =
    \<lparr>cf_transactions = map (\<lambda>(name, f). (name, compile_tx_filter decode f)) (sr_transactions req),
     cf_slots = map (\<lambda>(name, f). (name, \<lparr>cs_filter_by_commitment = sf_filter_by_commitment f\<rparr>)) (sr_slots req),
     cf_blocks_meta = map fst (sr_blocks_meta req),
     cf_entry = map fst (sr_entry req),
     cf_block_footer = map fst (sr_block_footer req),
     cf_has_accounts = (sr_accounts req \<noteq> []),
     cf_has_blocks = (sr_blocks req \<noteq> []),
     cf_has_transactions_status = (sr_transactions_status req \<noteq> []),
     cf_has_unsupported_options =
       (list_ex (\<lambda>(name, f). tf_cuckoo_account_include f \<noteq> None \<or> tf_token_accounts f \<noteq> None) (sr_transactions req)
        \<or> list_ex (\<lambda>(name, f). ef_include_update_parent f = Some True) (sr_entry req)
        \<or> list_ex (\<lambda>(name, f). ff_include_certificates f = Some True) (sr_block_footer req))\<rparr>"

definition needs_direct_connection :: "compiled_filters \<Rightarrow> bool" where
  "needs_direct_connection c \<longleftrightarrow>
     cf_has_accounts c \<or> cf_has_blocks c \<or> cf_has_transactions_status c \<or> cf_has_unsupported_options c"

definition has_mux_subscriptions :: "compiled_filters \<Rightarrow> bool" where
  "has_mux_subscriptions c \<longleftrightarrow>
     cf_transactions c \<noteq> [] \<or> cf_slots c \<noteq> [] \<or> cf_blocks_meta c \<noteq> [] \<or> cf_entry c \<noteq> []
     \<or> cf_block_footer c \<noteq> []"

section \<open>Matching\<close>

definition collect_tx_account_keys :: "transaction_info \<Rightarrow> bytes list" where
  "collect_tx_account_keys info =
    (case ti_transaction info of
       Some tx \<Rightarrow> (case tr_message tx of Some msg \<Rightarrow> msg_account_keys msg | None \<Rightarrow> [])
     | None \<Rightarrow> [])
    @ (case ti_meta info of
         Some meta \<Rightarrow> tm_loaded_writable_addresses meta @ tm_loaded_readonly_addresses meta
       | None \<Rightarrow> [])"

definition is_failed :: "transaction_info \<Rightarrow> bool" where
  "is_failed info = (case ti_meta info of Some m \<Rightarrow> tm_err m \<noteq> None | None \<Rightarrow> False)"

definition matches_tx_filter :: "compiled_tx_filter \<Rightarrow> transaction_info \<Rightarrow> bytes list \<Rightarrow> bool" where
  "matches_tx_filter filt info account_keys =
    (if (case ct_vote filt of Some want_vote \<Rightarrow> want_vote \<noteq> ti_is_vote info | None \<Rightarrow> False) then False
     else if (case ct_failed filt of Some want_failed \<Rightarrow> want_failed \<noteq> is_failed info | None \<Rightarrow> False) then False
     else if (case ct_signature filt of Some want_sig \<Rightarrow> ti_signature info \<noteq> want_sig | None \<Rightarrow> False) then False
     else if ct_account_include filt \<noteq> {}
       \<and> \<not> list_ex (\<lambda>k. k \<in> ct_account_include filt) account_keys then False
     else if ct_account_exclude filt \<noteq> {}
       \<and> list_ex (\<lambda>k. k \<in> ct_account_exclude filt) account_keys then False
     else if ct_account_required filt \<noteq> {}
       \<and> \<not> (\<forall>req \<in> ct_account_required filt. list_ex (\<lambda>k. k = req) account_keys) then False
     else True)"

definition match_transaction :: "compiled_filters \<Rightarrow> transaction_update \<Rightarrow> string list option" where
  "match_transaction c tx =
    (if cf_transactions c = [] then None
     else (case tu_transaction tx of
             None \<Rightarrow> None
           | Some info \<Rightarrow>
               let account_keys = collect_tx_account_keys info;
                   matched = map fst (filter (\<lambda>(name, filt). matches_tx_filter filt info account_keys)
                     (cf_transactions c))
               in if matched = [] then None else Some matched))"

definition names_or_none :: "string list \<Rightarrow> string list option" where
  "names_or_none names = (if names = [] then None else Some names)"

definition match_update :: "compiled_filters \<Rightarrow> subscribe_update \<Rightarrow> string list option" where
  "match_update c u =
    (case up_oneof u of
       None \<Rightarrow> None
     | Some x \<Rightarrow>
         (case x of
            UTransaction tx \<Rightarrow> match_transaction c tx
          | USlot _ \<Rightarrow> names_or_none (map fst (cf_slots c))
          | UBlockMeta _ \<Rightarrow> names_or_none (cf_blocks_meta c)
          | UEntry _ \<Rightarrow> names_or_none (cf_entry c)
          | UBlockFooter _ \<Rightarrow> names_or_none (cf_block_footer c)
          | UPing \<Rightarrow> Some []
          | UPong _ \<Rightarrow> Some []
          | _ \<Rightarrow> None))"

section \<open>Reference semantics of a transaction filter\<close>

text \<open>What the request's own wording means: the account lists name accounts by base58, an empty list
  puts no constraint, \<open>include\<close> asks for one of its accounts, \<open>exclude\<close> for none, \<open>required\<close> for all.\<close>

definition touches :: "decoder \<Rightarrow> string \<Rightarrow> transaction_info \<Rightarrow> bool" where
  "touches decode name info \<longleftrightarrow> (\<exists>k. decode name = Some k \<and> k \<in> set (collect_tx_account_keys info))"

definition tx_filter_accepts :: "decoder \<Rightarrow> transactions_filter \<Rightarrow> transaction_info \<Rightarrow> bool" where
  "tx_filter_accepts decode f info \<longleftrightarrow>
     (\<forall>v. tf_vote f = Some v \<longrightarrow> ti_is_vote info = v)
   \<and> (\<forall>v. tf_failed f = Some v \<longrightarrow> is_failed info = v)
   \<and> (\<forall>s. tf_signature f = Some s \<longrightarrow> decode s = Some (ti_signature info))
   \<and> (tf_account_include f \<noteq> [] \<longrightarrow> (\<exists>a \<in> set (tf_account_include f). touches decode a info))
   \<and> (\<forall>a \<in> set (tf_account_exclude f). \<not> touches decode a info)
   \<and> (\<forall>a \<in> set (tf_account_required f). touches decode a info)"

definition decodable :: "decoder \<Rightarrow> transactions_filter \<Rightarrow> bool" where
  "decodable decode f \<longleftrightarrow>
     (\<forall>s. tf_signature f = Some s \<longrightarrow> decode s \<noteq> None)
   \<and> (\<forall>a \<in> set (tf_account_include f) \<union> set (tf_account_exclude f) \<union> set (tf_account_required f). decode a \<noteq> None)"

section \<open>Lemmas\<close>

lemma decode_b58_set_iff: "k \<in> decode_b58_set decode keys \<longleftrightarrow> (\<exists>a \<in> set keys. decode a = Some k)"
  by (force simp: decode_b58_set_def List.map_filter_def)

lemma decode_b58_set_empty: "decode_b58_set decode keys = {} \<longleftrightarrow> (\<forall>a \<in> set keys. decode a = None)"
  by (metis decode_b58_set_iff empty_iff equals0I option.distinct(1) option.exhaust)

lemma matches_tx_filter_iff:
  "matches_tx_filter filt info keys \<longleftrightarrow>
     (\<forall>v. ct_vote filt = Some v \<longrightarrow> ti_is_vote info = v)
   \<and> (\<forall>v. ct_failed filt = Some v \<longrightarrow> is_failed info = v)
   \<and> (\<forall>s. ct_signature filt = Some s \<longrightarrow> ti_signature info = s)
   \<and> (ct_account_include filt \<noteq> {} \<longrightarrow> ct_account_include filt \<inter> set keys \<noteq> {})
   \<and> ct_account_exclude filt \<inter> set keys = {} \<and> ct_account_required filt \<subseteq> set keys"
  unfolding matches_tx_filter_def list_ex_iff by (auto split: option.splits)

lemma match_compiled:
  assumes "decodable decode f"
  shows "matches_tx_filter (compile_tx_filter decode f) info (collect_tx_account_keys info)
    \<longleftrightarrow> tx_filter_accepts decode f info"
proof -
  let ?K = "set (collect_tx_account_keys info)"
  have inc: "decode_b58_set decode (tf_account_include f) = {} \<longleftrightarrow> tf_account_include f = []"
    using assms unfolding decode_b58_set_empty decodable_def by (cases "tf_account_include f") auto
  have touch: "decode_b58_set decode as \<inter> ?K \<noteq> {} \<longleftrightarrow> (\<exists>a \<in> set as. touches decode a info)" for as
    by (auto simp: touches_def decode_b58_set_iff disjoint_iff)
  have req: "decode_b58_set decode (tf_account_required f) \<subseteq> ?K \<longleftrightarrow>
      (\<forall>a \<in> set (tf_account_required f). touches decode a info)"
    using assms unfolding decodable_def touches_def subset_iff decode_b58_set_iff by fastforce
  have sig: "(\<forall>s. Option.bind (tf_signature f) decode = Some s \<longrightarrow> ti_signature info = s)
      \<longleftrightarrow> (\<forall>s. tf_signature f = Some s \<longrightarrow> decode s = Some (ti_signature info))"
    using assms by (cases "tf_signature f") (auto simp: decodable_def)
  show ?thesis
    unfolding matches_tx_filter_iff tx_filter_accepts_def compile_tx_filter_def compiled_tx_filter.simps
      sig req inc using touch [of "tf_account_include f"] touch [of "tf_account_exclude f"] by blast
qed

lemma match_transaction_names:
  "match_transaction (from_request decode req) tx =
    (case tu_transaction tx of
       None \<Rightarrow> None
     | Some info \<Rightarrow> names_or_none (map fst (filter
         (\<lambda>(name, f). matches_tx_filter (compile_tx_filter decode f) info (collect_tx_account_keys info))
         (sr_transactions req))))"
  by (auto simp: match_transaction_def from_request_def names_or_none_def Let_def filter_map comp_def
      case_prod_unfold filter_empty_conv split: option.splits)

section \<open>Properties\<close>


definition example_info :: transaction_info where
  "example_info = \<lparr>ti_signature = ''s'', ti_is_vote = False,
     ti_transaction = Some \<lparr>tr_signatures = [''s''], tr_message = Some \<lparr>msg_account_keys = [''k'']\<rparr>\<rparr>,
     ti_meta = None, ti_index = 0\<rparr>"

definition example_update :: subscribe_update where
  "example_update = \<lparr>up_filters = [], up_oneof = Some (UTransaction \<lparr>tu_transaction = Some example_info,
     tu_slot = 7, tu_bank_id = 0\<rparr>), up_created_at = None\<rparr>"

definition example_request :: subscribe_request where
  "example_request = default_subscribe_request\<lparr>sr_transactions :=
     [(''mine'', default_transactions_filter\<lparr>tf_account_include := [''k'']\<rparr>),
      (''votes'', default_transactions_filter\<lparr>tf_vote := Some True\<rparr>)]\<rparr>"

lemmas example_filter_defs = example_info_def example_update_def example_request_def
  default_subscribe_request_def default_transactions_filter_def


text \<open>Undecodable strings vanish at compilation: a filter on an unreadable signature, or one that
  includes only unreadable accounts, lets every transaction through.\<close>

lemma unreadable_filter_matches_everything:
  assumes "decode bad = None"
  shows "matches_tx_filter (compile_tx_filter decode (default_transactions_filter\<lparr>tf_signature := Some bad\<rparr>)) info keys"
    and "matches_tx_filter (compile_tx_filter decode (default_transactions_filter\<lparr>tf_account_include := [bad]\<rparr>)) info keys"
    and "\<not> tx_filter_accepts decode (default_transactions_filter\<lparr>tf_account_include := [bad]\<rparr>) info"
  using assms
  by (simp_all add: matches_tx_filter_iff compile_tx_filter_def default_transactions_filter_def
      decode_b58_set_def List.map_filter_def tx_filter_accepts_def touches_def)

text \<open>Routing to the shared stream is sound: a request that is not sent to a direct
  connection asks for nothing the shared stream cannot evaluate (no account, block or transaction
  status filter, no cuckoo filter, token expansion, parent update or certificate option).\<close>

theorem mux_requests_supported:
  "\<not> needs_direct_connection (from_request decode req) \<longleftrightarrow>
     sr_accounts req = [] \<and> sr_blocks req = [] \<and> sr_transactions_status req = []
   \<and> (\<forall>(name, f) \<in> set (sr_transactions req). tf_cuckoo_account_include f = None \<and> tf_token_accounts f = None)
   \<and> (\<forall>(name, f) \<in> set (sr_entry req). ef_include_update_parent f \<noteq> Some True)
   \<and> (\<forall>(name, f) \<in> set (sr_block_footer req). ff_include_certificates f \<noteq> Some True)"
  by (auto simp: needs_direct_connection_def from_request_def list_ex_iff)

theorem mux_requests_supported_witness:
  "\<not> needs_direct_connection (from_request Some example_request)
   \<and> needs_direct_connection (from_request Some (example_request\<lparr>sr_entry := [(''e'', \<lparr>ef_include_update_parent = Some True\<rparr>)]\<rparr>))"
  using mux_requests_supported [of Some example_request]
    mux_requests_supported [of Some "example_request\<lparr>sr_entry := [(''e'', \<lparr>ef_include_update_parent = Some True\<rparr>)]\<rparr>"]
  by (simp add: example_filter_defs)

end
