(* ===== verification/Dedup.thy ===== *)
theory Dedup
  imports Geyser Health
begin

text \<open>
  Slot tracking and cross-region deduplication of the gRPC multiplexer
  (\<open>src/src/proxy/grpc_mux.rs\<close>, \<open>SlotTracker\<close>, \<open>DedupCache\<close>, \<open>compute_dedup_key\<close>, \<open>track_slot\<close>,
  \<open>run_dedup_worker\<close>). Mutexes are held over straight-line code that cannot panic, so poisoning
  does not occur; clock readings are inputs; the broadcast channel is the list of what was sent.
\<close>

section \<open>Slot tracker\<close>

record slot_tracker =
  sk_last_slot :: u64
  sk_gaps :: u64
  sk_recent :: "u64 list"

definition new_slot_tracker :: slot_tracker where
  "new_slot_tracker = \<lparr>sk_last_slot = 0, sk_gaps = 0, sk_recent = []\<rparr>"

text \<open>The compare-exchange loop, with the number of spurious failures of the weak exchange.\<close>

fun raise_last :: "nat \<Rightarrow> u64 \<Rightarrow> u64 \<Rightarrow> u64" where
  "raise_last 0 slot cell = (if slot > cell then slot else cell)"
| "raise_last (Suc n) slot cell = (if slot > cell then raise_last n slot cell else cell)"

definition observe :: "nat \<Rightarrow> u64 \<Rightarrow> u64 option \<Rightarrow> i32 \<Rightarrow> slot_tracker \<Rightarrow> u64 option \<times> slot_tracker" where
  "observe spurious slot parent status tk =
    (if status \<noteq> 0 then (None, tk)
     else
       let missing =
             (case parent of
                None \<Rightarrow> None
              | Some p \<Rightarrow>
                  (case sk_recent tk of
                     [] \<Rightarrow> None
                   | oldest # _ \<Rightarrow> if p \<ge> oldest \<and> p \<notin> set (sk_recent tk) then Some p else None));
           recent =
             (if slot \<in> set (sk_recent tk) then sk_recent tk
              else let pushed = sk_recent tk @ [slot]
                   in if length pushed > 2048 then tl pushed else pushed);
           last = raise_last spurious slot (sk_last_slot tk);
           gaps = (if missing \<noteq> None then sk_gaps tk + 1 else sk_gaps tk)
       in (missing, \<lparr>sk_last_slot = last, sk_gaps = gaps, sk_recent = recent\<rparr>))"

section \<open>Dedup keys and cache\<close>

datatype dedup_key =
    KTransaction u64 bytes
  | KTransactionStatus u64 bytes
  | KSlot u64 i32
  | KBlockMeta u64 string
  | KEntry u64 u64 bytes
  | KBlockFooter u64 bytes

definition compute_dedup_key :: "subscribe_update \<Rightarrow> dedup_key option" where
  "compute_dedup_key update =
    (case up_oneof update of
       None \<Rightarrow> None
     | Some x \<Rightarrow>
         (case x of
            UTransaction tx \<Rightarrow>
              (case tu_transaction tx of
                 None \<Rightarrow> None
               | Some info \<Rightarrow> Some (KTransaction (tu_slot tx) (ti_signature info)))
          | UTransactionStatus s \<Rightarrow> Some (KTransactionStatus (ts_slot s) (ts_signature s))
          | USlot s \<Rightarrow> Some (KSlot (su_slot s) (su_status s))
          | UBlockMeta b \<Rightarrow> Some (KBlockMeta (bm_slot b) (bm_blockhash b))
          | UEntry e \<Rightarrow> Some (KEntry (eu_slot e) (eu_index e) (eu_hash e))
          | UBlockFooter f \<Rightarrow> Some (KBlockFooter (fu_slot f) (fu_bank_hash f))
          | _ \<Rightarrow> None))"

record dedup_cache =
  dc_seen :: "dedup_key set"
  dc_fifo :: "(dedup_key \<times> instant) list"
  dc_ttl :: duration

definition new_dedup_cache :: "duration \<Rightarrow> dedup_cache" where
  "new_dedup_cache ttl = \<lparr>dc_seen = {}, dc_fifo = [], dc_ttl = ttl\<rparr>"

definition check_and_insert :: "instant \<Rightarrow> dedup_key \<Rightarrow> dedup_cache \<Rightarrow> bool \<times> dedup_cache" where
  "check_and_insert now key c =
    (if key \<in> dc_seen c then (False, c)
     else (True, c\<lparr>dc_seen := insert key (dc_seen c), dc_fifo := dc_fifo c @ [(key, now)]\<rparr>))"

text \<open>The eviction loop on the queue and the set.\<close>

fun evict_loop :: "instant \<Rightarrow> duration \<Rightarrow> (dedup_key \<times> instant) list \<Rightarrow> dedup_key set
    \<Rightarrow> (dedup_key \<times> instant) list \<times> dedup_key set" where
  "evict_loop now ttl [] seen = ([], seen)"
| "evict_loop now ttl ((k, w) # fifo) seen =
    (if now - w \<ge> ttl then evict_loop now ttl fifo (seen - {k}) else ((k, w) # fifo, seen))"

definition evict_expired :: "instant \<Rightarrow> dedup_cache \<Rightarrow> dedup_cache" where
  "evict_expired now c =
    (case evict_loop now (dc_ttl c) (dc_fifo c) (dc_seen c) of
       (fifo, seen) \<Rightarrow> c\<lparr>dc_seen := seen, dc_fifo := fifo\<rparr>)"

section \<open>Worker\<close>

record upstream_shared =
  us_upstream_slot :: u64
  us_messages_received :: u64
  us_reconnects :: u64
  us_slots :: slot_tracker
  us_replay_on_reconnect :: bool

definition track_slot :: "subscribe_update \<Rightarrow> upstream_shared \<Rightarrow> upstream_shared" where
  "track_slot update sh =
    (case up_oneof update of
       Some (USlot s) \<Rightarrow>
         sh\<lparr>us_upstream_slot := su_slot s,
            us_slots := snd (observe 0 (su_slot s) (su_parent s) (su_status s) (us_slots sh))\<rparr>
     | _ \<Rightarrow> sh)"

record worker =
  wk_cache :: dedup_cache
  wk_shared :: upstream_shared
  wk_nodes :: "(string \<times> node_health) list"
  wk_total_in :: u64
  wk_total_out :: u64
  wk_sent :: "subscribe_update list"

definition on_node :: "string \<Rightarrow> (node_health \<Rightarrow> node_health) \<Rightarrow> worker \<Rightarrow> worker" where
  "on_node node_id f w =
    (case map_of (wk_nodes w) node_id of
       Some n \<Rightarrow> w\<lparr>wk_nodes := AList.update node_id (f n) (wk_nodes w)\<rparr>
     | None \<Rightarrow> w)"

text \<open>One iteration of the worker's loop; \<open>now\<close> is the monotonic clock at the cache check and
  \<open>wall_ms\<close> the wall clock at the health update.\<close>

definition worker_step :: "instant \<Rightarrow> u64 \<Rightarrow> string \<Rightarrow> subscribe_update \<Rightarrow> worker \<Rightarrow> worker" where
  "worker_step now wall_ms node_id update w =
    (let w = w\<lparr>wk_total_in := wk_total_in w + 1,
               wk_shared := (wk_shared w)\<lparr>us_messages_received := us_messages_received (wk_shared w) + 1\<rparr>\<rparr>;
         w = on_node node_id (\<lambda>h. h\<lparr>nh_last_msg_ms := wall_ms\<rparr>) w
     in if is_pong update then w
        else
          let (is_new, cache) =
                (case compute_dedup_key update of
                   Some k \<Rightarrow> check_and_insert now k (wk_cache w)
                 | None \<Rightarrow> (True, wk_cache w));
              w = w\<lparr>wk_cache := cache\<rparr>
          in if \<not> is_new then on_node node_id (\<lambda>h. h\<lparr>nh_dupes := nh_dupes h + 1\<rparr>) w
             else
               let w = on_node node_id (\<lambda>h. h\<lparr>nh_wins := nh_wins h + 1\<rparr>) w;
                   w = w\<lparr>wk_shared := track_slot update (wk_shared w)\<rparr>
               in w\<lparr>wk_total_out := wk_total_out w + 1, wk_sent := wk_sent w @ [update]\<rparr>)"

text \<open>The worker and the eviction task run concurrently on the cache; an event is one iteration of
  either, at a clock reading.\<close>

datatype mux_event = Arrive instant u64 string subscribe_update | EvictTick instant

fun event_time :: "mux_event \<Rightarrow> instant" where
  "event_time (Arrive now _ _ _) = now"
| "event_time (EvictTick now) = now"

fun mux_step :: "mux_event \<Rightarrow> worker \<Rightarrow> worker" where
  "mux_step (Arrive now wall_ms node_id update) w = worker_step now wall_ms node_id update w"
| "mux_step (EvictTick now) w = w\<lparr>wk_cache := evict_expired now (wk_cache w)\<rparr>"

definition run_dedup_worker :: "mux_event list \<Rightarrow> worker \<Rightarrow> worker" where
  "run_dedup_worker evs w = fold mux_step evs w"

section \<open>Slot tracker lemmas\<close>

lemma raise_last_max: "raise_last n slot cell = max slot cell"
  by (induction n) (auto simp: max_def)

type_synonym observation = "nat \<times> u64 \<times> u64 option \<times> i32"

fun observe_obs :: "observation \<Rightarrow> slot_tracker \<Rightarrow> slot_tracker" where
  "observe_obs (n, slot, parent, status) tk = snd (observe n slot parent status tk)"

definition processed :: "observation list \<Rightarrow> u64 list" where
  "processed obs = map (\<lambda>(n, slot, parent, status). slot) (filter (\<lambda>(n, slot, parent, status). status = 0) obs)"

definition tracker_after :: "observation list \<Rightarrow> slot_tracker" where
  "tracker_after obs = fold observe_obs obs new_slot_tracker"

lemma tracker_snoc: "tracker_after (obs @ [ob]) = observe_obs ob (tracker_after obs)"
  by (simp add: tracker_after_def)

lemma processed_snoc: "processed (obs @ [(n, slot, parent, status)]) = processed obs @ (if status = 0 then [slot] else [])"
  by (simp add: processed_def)

definition push_recent :: "u64 \<Rightarrow> u64 list \<Rightarrow> u64 list" where
  "push_recent slot recent =
    (if slot \<in> set recent then recent
     else if length recent \<ge> 2048 then tl recent @ [slot] else recent @ [slot])"

lemma observe_recent:
  "sk_recent (snd (observe n slot parent status tk)) =
    (if status = 0 then push_recent slot (sk_recent tk) else sk_recent tk)"
  by (cases "sk_recent tk") (auto simp: observe_def push_recent_def Let_def)

lemma push_recent_window:
  "distinct r \<Longrightarrow> distinct (push_recent slot r)"
  "length r \<le> 2048 \<Longrightarrow> length (push_recent slot r) \<le> 2048"
  "slot \<in> set (push_recent slot r)"
  "set (push_recent slot r) \<subseteq> insert slot (set r)"
  by (cases r; auto simp: push_recent_def)+

lemma tracker_window:
  "distinct (sk_recent (tracker_after obs)) \<and> length (sk_recent (tracker_after obs)) \<le> 2048
   \<and> set (sk_recent (tracker_after obs)) \<subseteq> set (processed obs)
   \<and> sk_last_slot (tracker_after obs) = fold max (processed obs) 0"
proof (induction obs rule: rev_induct)
  case (snoc ob obs)
  obtain n slot parent status where ob: "ob = (n, slot, parent, status)" by (cases ob)
  show ?case
  proof (cases "status = 0")
    case True
    then show ?thesis
      using snoc push_recent_window [where r = "sk_recent (tracker_after obs)" and slot = slot]
      by (auto simp: ob tracker_snoc processed_snoc observe_recent)
        (simp add: observe_def Let_def raise_last_max)
  next
    case False
    then show ?thesis using snoc by (simp add: ob tracker_snoc processed_snoc observe_recent) (simp add: observe_def)
  qed
qed (simp add: tracker_after_def new_slot_tracker_def processed_def)

text \<open>In order, everything that left the window is below its front; and nothing leaves the window
  during the first 2048 processed slots.\<close>

definition below_or_in :: "u64 list \<Rightarrow> u64 \<Rightarrow> bool" where
  "below_or_in r s \<longleftrightarrow> s \<in> set r \<or> r \<noteq> [] \<and> s < hd r"

lemma push_in_order:
  assumes "sorted r" "distinct r" "\<forall>x \<in> set r. x \<le> slot" "below_or_in r s"
  shows "below_or_in (push_recent slot r) s"
proof (cases "slot \<in> set r")
  case True
  then show ?thesis using assms(4) by (simp add: push_recent_def)
next
  case False
  obtain a t where r: "r = a # t" using assms(4) by (cases r) (auto simp: below_or_in_def)
  have "a < hd (t @ [slot])"
    using assms(1-3) False r by (cases t) (auto simp: less_le)
  then show ?thesis
    using assms(4) False r by (auto simp: below_or_in_def push_recent_def hd_append)
qed

lemma push_sorted:
  assumes "sorted r" "\<forall>x \<in> set r. x \<le> slot"
  shows "sorted (push_recent slot r)"
  using assms by (cases r) (auto simp: push_recent_def sorted_append)

lemma window_in_order:
  assumes "sorted (processed obs)"
  shows "sorted (sk_recent (tracker_after obs))
    \<and> (\<forall>s \<in> set (processed obs). below_or_in (sk_recent (tracker_after obs)) s)"
  using assms
proof (induction obs rule: rev_induct)
  case (snoc ob obs)
  obtain n slot parent status where ob: "ob = (n, slot, parent, status)" by (cases ob)
  let ?r = "sk_recent (tracker_after obs)"
  have srt: "sorted (processed obs)"
    using snoc.prems by (auto simp: ob processed_snoc sorted_append split: if_splits)
  note IH = snoc.IH [OF srt]
  have d: "distinct ?r" "set ?r \<subseteq> set (processed obs)" using tracker_window by blast+
  show ?case
  proof (cases "status = 0")
    case True
    then have "\<forall>x \<in> set ?r. x \<le> slot"
      using snoc.prems d(2) by (auto simp: ob processed_snoc sorted_append)
    moreover have "below_or_in (push_recent slot ?r) slot"
      using push_recent_window(3) by (simp add: below_or_in_def)
    ultimately show ?thesis
      using IH True d(1)
      by (auto simp: ob tracker_snoc processed_snoc observe_recent intro: push_sorted push_in_order)
  qed (use IH in \<open>simp add: ob tracker_snoc processed_snoc observe_recent\<close>)
qed (simp add: tracker_after_def new_slot_tracker_def processed_def)

lemma window_short:
  assumes "length (processed obs) \<le> 2048"
  shows "set (sk_recent (tracker_after obs)) = set (processed obs)"
  using assms
proof (induction obs rule: rev_induct)
  case (snoc ob obs)
  obtain n slot parent status where ob: "ob = (n, slot, parent, status)" by (cases ob)
  have IH: "set (sk_recent (tracker_after obs)) = set (processed obs)"
    using snoc by (simp add: ob processed_snoc split: if_splits)
  have "length (sk_recent (tracker_after obs)) = card (set (processed obs))"
    using tracker_window [of obs] IH by (metis distinct_card)
  then have "length (sk_recent (tracker_after obs)) \<le> length (processed obs)" by (simp add: card_length)
  with IH snoc.prems show ?case
    by (auto simp: ob tracker_snoc processed_snoc observe_recent push_recent_def split: if_splits)
qed (simp add: tracker_after_def new_slot_tracker_def processed_def)

section \<open>The contract of an expiring set\<close>

text \<open>
  What the deduplication relies on: a set of keys, each stamped with the time it entered, where a
  check reports and stamps a new key and leaves a known one alone, and eviction at a time removes
  exactly the keys whose age has reached the time to live.
\<close>

datatype 'k cache_op = Check instant 'k | Evict instant

fun op_time :: "'k cache_op \<Rightarrow> instant" where
  "op_time (Check t k) = t"
| "op_time (Evict t) = t"

locale expiring_set =
  fixes check :: "instant \<Rightarrow> 'k \<Rightarrow> 'c \<Rightarrow> bool \<times> 'c" and evict :: "instant \<Rightarrow> 'c \<Rightarrow> 'c"
    and stamp :: "'c \<Rightarrow> 'k \<Rightarrow> instant option" and ttl :: "'c \<Rightarrow> duration"
    and inv :: "instant \<Rightarrow> 'c \<Rightarrow> bool"
  assumes check_new: "inv t c \<Longrightarrow> fst (check t' k c) \<longleftrightarrow> stamp c k = None"
    and stamp_check: "inv t c \<Longrightarrow> t \<le> t' \<Longrightarrow>
      stamp (snd (check t' k c)) = (if stamp c k = None then (stamp c)(k \<mapsto> t') else stamp c)"
    and stamp_evict: "inv t c \<Longrightarrow> t \<le> t' \<Longrightarrow>
      stamp (evict t' c) k = (case stamp c k of Some w \<Rightarrow> if t' - w \<ge> ttl c then None else Some w | None \<Rightarrow> None)"
    and stamp_le: "inv t c \<Longrightarrow> stamp c k = Some w \<Longrightarrow> w \<le> t"
    and inv_check: "inv t c \<Longrightarrow> t \<le> t' \<Longrightarrow> inv t' (snd (check t' k c))"
    and inv_evict: "inv t c \<Longrightarrow> t \<le> t' \<Longrightarrow> inv t' (evict t' c)"
    and ttl_check: "ttl (snd (check t' k c)) = ttl c"
    and ttl_evict: "ttl (evict t' c) = ttl c"
begin

fun exec :: "'k cache_op \<Rightarrow> 'c \<Rightarrow> 'c" where
  "exec (Check t k) c = snd (check t k c)"
| "exec (Evict t) c = evict t c"

lemma exec_inv: "inv t c \<Longrightarrow> t \<le> op_time e \<Longrightarrow> inv (op_time e) (exec e c)"
  by (cases e) (auto simp: inv_check inv_evict)

lemma exec_ttl: "ttl (exec e c) = ttl c"
  by (cases e) (auto simp: ttl_check ttl_evict)

lemma fold_ttl: "ttl (fold exec ops c) = ttl c"
  by (induction ops arbitrary: c) (simp_all add: exec_ttl)

lemma fold_inv:
  "inv t c \<Longrightarrow> sorted (t # map op_time ops) \<Longrightarrow> inv (last (t # map op_time ops)) (fold exec ops c)"
proof (induction ops arbitrary: t c)
  case (Cons e ops)
  then show ?case using exec_inv [of t c e] by simp
qed simp

text \<open>A key stays known for the whole time to live.\<close>

lemma stamp_kept:
  assumes "inv t c" "t \<le> op_time e" "stamp c k = Some w" "op_time e < w + ttl c"
  shows "stamp (exec e c) k = Some w"
  using assms stamp_le [OF assms(1,3)] by (cases e) (auto simp: stamp_check stamp_evict)

lemma stamp_kept_all:
  assumes "inv t c" "sorted (t # map op_time ops)" "stamp c k = Some w" "\<forall>e \<in> set ops. op_time e < w + ttl c"
  shows "stamp (fold exec ops c) k = Some w"
  using assms
proof (induction ops arbitrary: t c)
  case (Cons e ops)
  have "stamp (exec e c) k = Some w" by (rule stamp_kept [of t]) (use Cons.prems in auto)
  moreover have "inv (op_time e) (exec e c)" by (rule exec_inv) (use Cons.prems in auto)
  ultimately show ?case using Cons by (simp add: exec_ttl)
qed simp

lemma rejected_within_ttl:
  assumes "inv t c" "sorted (t # map op_time (Check t0 k # ops @ [Check t1 k]))"
    and "fst (check t0 k c)" "t1 < t0 + ttl c"
  shows "\<not> fst (check t1 k (fold exec ops (snd (check t0 k c))))"
proof -
  let ?c = "snd (check t0 k c)"
  have "stamp ?c k = Some t0" using assms by (simp add: check_new stamp_check)
  moreover have i: "inv t0 ?c" using assms by (simp add: inv_check)
  moreover have srt: "sorted (t0 # map op_time ops)" and "\<forall>e \<in> set ops. op_time e \<le> t1"
    using assms(2) by (auto simp: sorted_append)
  ultimately have "stamp (fold exec ops ?c) k = Some t0"
    using assms(4) by (intro stamp_kept_all) (auto simp: ttl_check)
  moreover have "inv (last (t0 # map op_time ops)) (fold exec ops ?c)" by (rule fold_inv [OF i srt])
  ultimately show ?thesis by (simp add: check_new)
qed

text \<open>A key that was never checked is new; with the contract above, one checked once and evicted is
  new again.\<close>

lemma never_checked_new:
  assumes "inv t c" "sorted (t # map op_time ops)" "stamp c k = None" "\<forall>t' k'. Check t' k' \<in> set ops \<longrightarrow> k' \<noteq> k"
  shows "stamp (fold exec ops c) k = None"
  using assms
proof (induction ops arbitrary: t c)
  case (Cons e ops)
  have "stamp (exec e c) k = None"
    using Cons.prems by (cases e) (auto simp: stamp_check [of t] stamp_evict [of t])
  moreover have "inv (op_time e) (exec e c)" by (rule exec_inv [of t]) (use Cons.prems in auto)
  ultimately show ?case using Cons by auto
qed simp

end

section \<open>The dedup cache is an expiring set\<close>

definition cache_stamp :: "dedup_cache \<Rightarrow> dedup_key \<Rightarrow> instant option" where
  "cache_stamp c = map_of (dc_fifo c)"

definition cache_inv :: "instant \<Rightarrow> dedup_cache \<Rightarrow> bool" where
  "cache_inv t c \<longleftrightarrow> dc_seen c = fst ` set (dc_fifo c) \<and> distinct_keys (dc_fifo c)
     \<and> sorted (map snd (dc_fifo c)) \<and> (\<forall>w \<in> snd ` set (dc_fifo c). w \<le> t)"

lemma evict_loop_filter:
  assumes "sorted (map snd fifo)" "distinct_keys fifo"
  shows "evict_loop now ttl fifo seen =
    (filter (\<lambda>(k, w). \<not> now - w \<ge> ttl) fifo, seen - fst ` set (filter (\<lambda>(k, w). now - w \<ge> ttl) fifo))"
  using assms
proof (induction now ttl fifo seen rule: evict_loop.induct)
  case (2 now ttl k w fifo seen)
  show ?case
  proof (cases "now - w \<ge> ttl")
    case True
    then show ?thesis using 2 by (auto simp: case_prod_unfold)
  next
    case False
    have "\<forall>x \<in> set fifo. \<not> now - snd x \<ge> ttl" using 2(2) False by auto
    then show ?thesis
      using False by (auto simp: case_prod_unfold filter_id_conv filter_empty_conv)
  qed
qed simp

lemma map_of_filter_snd:
  "distinct_keys al \<Longrightarrow> map_of (filter (\<lambda>(k, w). P w) al) k =
    (case map_of al k of Some w \<Rightarrow> if P w then Some w else None | None \<Rightarrow> None)"
proof (induction al)
  case (Cons e al)
  obtain a b where e: "e = (a, b)" by (cases e)
  with Cons have "map_of al a = None" by (simp add: map_of_None_iff)
  with e Cons show ?case by (auto split: option.splits)
qed simp

lemma evict_expired_eq:
  assumes "cache_inv t c"
  shows "evict_expired now c =
    c\<lparr>dc_fifo := filter (\<lambda>(k, w). \<not> now - w \<ge> dc_ttl c) (dc_fifo c),
      dc_seen := fst ` set (filter (\<lambda>(k, w). \<not> now - w \<ge> dc_ttl c) (dc_fifo c))\<rparr>"
proof -
  have i: "dc_seen c = fst ` set (dc_fifo c)" "distinct_keys (dc_fifo c)" "sorted (map snd (dc_fifo c))"
    using assms by (simp_all add: cache_inv_def)
  have inj: "inj_on fst (set (dc_fifo c))" using i(2) by (simp add: distinct_map)
  have "fst ` set (dc_fifo c) - fst ` set (filter (\<lambda>(k, w). now - w \<ge> dc_ttl c) (dc_fifo c))
      = fst ` set (filter (\<lambda>(k, w). \<not> now - w \<ge> dc_ttl c) (dc_fifo c))"
    by (subst inj_on_image_set_diff [OF inj, symmetric]) (auto intro!: image_cong)
  then show ?thesis
    by (simp add: evict_expired_def evict_loop_filter [OF i(3,2)] i(1))
qed

interpretation dedup_set: expiring_set check_and_insert evict_expired cache_stamp dc_ttl cache_inv
proof (unfold_locales, goal_cases)
  case (1 t c t' k)
  then show ?case by (simp add: check_and_insert_def cache_inv_def cache_stamp_def map_of_None_iff)
next
  case (2 t c t' k)
  have "map_of (dc_fifo c @ [(k, t')]) = (map_of (dc_fifo c))(k \<mapsto> t')" if "map_of (dc_fifo c) k = None"
    using that by (auto simp: map_add_def fun_eq_iff split: option.splits)
  moreover have "k \<in> dc_seen c \<longleftrightarrow> map_of (dc_fifo c) k \<noteq> None"
    using 2 by (simp add: cache_inv_def map_of_None_iff)
  ultimately show ?case
    by (cases "map_of (dc_fifo c) k = None") (auto simp: check_and_insert_def cache_stamp_def)
next
  case (3 t c t' k)
  then have "distinct_keys (dc_fifo c)" by (simp add: cache_inv_def)
  with 3 show ?case
    by (simp add: evict_expired_eq cache_stamp_def map_of_filter_snd del: not_le split: option.splits)
next
  case (4 t c k w)
  then show ?case by (force simp: cache_inv_def cache_stamp_def dest: map_of_SomeD)
next
  case (5 t c t' k)
  then show ?case by (auto simp: check_and_insert_def cache_inv_def sorted_append image_iff)
next
  case (6 t c t')
  then show ?case
    by (auto simp: evict_expired_eq [OF 6(1)] cache_inv_def distinct_map_filter sorted_filter [where f = snd])
qed (simp_all add: check_and_insert_def evict_expired_def split: prod.splits)

text \<open>The two halves of \<open>check_and_insert\<close> (set, then queue) may have an eviction between them; it is
  the same as the eviction before both.\<close>

lemma evict_between_halves:
  assumes "cache_inv t c" "key \<notin> dc_seen c"
  shows "evict_expired now (c\<lparr>dc_seen := insert key (dc_seen c)\<rparr>)
    = (evict_expired now c)\<lparr>dc_seen := insert key (dc_seen (evict_expired now c))\<rparr>"
proof -
  have "evict_loop now ttl fifo (insert key seen) =
      (case evict_loop now ttl fifo seen of (f, sn) \<Rightarrow> (f, insert key sn))" if "key \<notin> fst ` set fifo" for ttl fifo seen
    using that by (induction now ttl fifo seen rule: evict_loop.induct) (auto simp: insert_Diff_if)
  moreover have "key \<notin> fst ` set (dc_fifo c)" using assms by (simp add: cache_inv_def)
  ultimately show ?thesis by (simp add: evict_expired_def split: prod.splits)
qed

section \<open>Worker lemmas\<close>

text \<open>Seen from the cache, an event is at most one check or one eviction.\<close>

fun event_op :: "mux_event \<Rightarrow> dedup_key cache_op option" where
  "event_op (Arrive now wall_ms node_id update) =
    (if is_pong update then None else map_option (Check now) (compute_dedup_key update))"
| "event_op (EvictTick now) = Some (Evict now)"

lemma on_node_frame [simp]:
  "wk_cache (on_node n f w) = wk_cache w" "wk_sent (on_node n f w) = wk_sent w"
  "wk_shared (on_node n f w) = wk_shared w" "wk_total_in (on_node n f w) = wk_total_in w"
  "wk_total_out (on_node n f w) = wk_total_out w"
  by (simp_all add: on_node_def split: option.splits)

lemma mux_step_cache:
  "wk_cache (mux_step e w) = (case event_op e of None \<Rightarrow> wk_cache w | Some op \<Rightarrow> dedup_set.exec op (wk_cache w))"
  by (cases e) (auto simp: worker_step_def Let_def split: option.splits prod.splits)

lemma run_cache: "wk_cache (fold mux_step evs w) = fold dedup_set.exec (List.map_filter event_op evs) (wk_cache w)"
  by (induction evs arbitrary: w) (auto simp: mux_step_cache List.map_filter_simps split: option.splits)

lemma event_op_time: "event_op e = Some op \<Longrightarrow> op_time op = event_time e"
  by (cases e) (auto split: if_splits)

lemma ops_sorted: "sorted (t # map event_time evs) \<Longrightarrow> sorted (t # map op_time (List.map_filter event_op evs))"
proof (induction evs arbitrary: t)
  case (Cons e evs)
  have tail: "sorted (t # map op_time (List.map_filter event_op evs))"
    using Cons.IH [of t] Cons.prems by simp
  have "sorted (event_time e # map op_time (List.map_filter event_op evs))"
    using Cons.IH [of "event_time e"] Cons.prems by simp
  with tail Cons.prems show ?case
    by (auto simp: List.map_filter_simps event_op_time split: option.splits)
qed (simp add: List.map_filter_simps)

text \<open>Whether the worker forwards a message in a given state.\<close>

definition forwards :: "instant \<Rightarrow> subscribe_update \<Rightarrow> worker \<Rightarrow> bool" where
  "forwards now update w \<longleftrightarrow> \<not> is_pong update
     \<and> (\<forall>k. compute_dedup_key update = Some k \<longrightarrow> fst (check_and_insert now k (wk_cache w)))"

lemma worker_step_sent:
  "wk_sent (worker_step now wall_ms node_id update w) =
    wk_sent w @ (if forwards now update w then [update] else [])"
  by (auto simp: worker_step_def forwards_def Let_def split: option.splits prod.splits)

lemma fold_mux_cache_inv:
  assumes "cache_inv t (wk_cache w)" "sorted (t # map event_time evs)"
  shows "\<exists>t'. cache_inv t' (wk_cache (fold mux_step evs w))"
  using dedup_set.fold_inv [OF assms(1) ops_sorted [OF assms(2)]] by (auto simp: run_cache)

section \<open>Properties\<close>

text \<open>Property C16. No duplicates within the window: once the worker has forwarded a message, it
  forwards no other message with the same key (the copies from the other regions) before the
  dedup window has passed, however arrivals and evictions interleave.\<close>

theorem no_duplicate_within_window:
  assumes "cache_inv t (wk_cache w)" "sorted (t # t0 # map event_time evs @ [t1])"
    and "compute_dedup_key u = Some k" "compute_dedup_key u' = Some k"
    and "forwards t0 u w" "t1 < t0 + dc_ttl (wk_cache w)"
  shows "\<not> forwards t1 u' (run_dedup_worker evs (worker_step t0 ms n u w))"
proof -
  let ?ops = "List.map_filter event_op evs"
  have np: "\<not> is_pong u" and new: "fst (check_and_insert t0 k (wk_cache w))"
    using assms(3,5) by (auto simp: forwards_def)
  have step: "wk_cache (worker_step t0 ms n u w) = snd (check_and_insert t0 k (wk_cache w))"
    using mux_step_cache [of "Arrive t0 ms n u" w] np assms(3) by simp
  have "sorted (t0 # map event_time evs)" using assms(2) by (simp add: sorted_append)
  note srt = ops_sorted [OF this]
  have "\<forall>e \<in> set ?ops. op_time e \<le> t1"
    using assms(2) event_op_time
    by (auto simp: sorted_append List.map_filter_def)
  with srt assms(2) have "sorted (t # map op_time (Check t0 k # ?ops @ [Check t1 k]))"
    by (auto simp: sorted_append)
  from dedup_set.rejected_within_ttl [OF assms(1) this new assms(6)]
  have "\<not> fst (check_and_insert t1 k (wk_cache (fold mux_step evs (worker_step t0 ms n u w))))"
    by (simp add: run_cache step)
  then show ?thesis using assms(4) by (auto simp: forwards_def run_dedup_worker_def)
qed

text \<open>Property C17. Nothing is lost: a message that is not a pong is forwarded if it carries no dedup
  key, or if no message with its key arrived before it; and the worker sends exactly the messages
  it forwards, in order of arrival.\<close>

theorem first_arrival_forwarded:
  assumes "cache_inv t (wk_cache w)" "sorted (t # map event_time evs)" "\<not> is_pong u"
    and "\<forall>k. compute_dedup_key u = Some k \<longrightarrow> cache_stamp (wk_cache w) k = None
       \<and> (\<forall>now ms n u'. Arrive now ms n u' \<in> set evs \<longrightarrow> compute_dedup_key u' \<noteq> Some k)"
  shows "wk_sent (worker_step t1 ms n u (run_dedup_worker evs w)) = wk_sent (run_dedup_worker evs w) @ [u]"
proof -
  have "fst (check_and_insert t1 k (wk_cache (fold mux_step evs w)))" if k: "compute_dedup_key u = Some k" for k
  proof -
    have "\<forall>t' k'. Check t' k' \<in> set (List.map_filter event_op evs) \<longrightarrow> k' \<noteq> k"
    proof (intro allI impI)
      fix t' k' assume "Check t' k' \<in> set (List.map_filter event_op evs)"
      then obtain e where e: "e \<in> set evs" "event_op e = Some (Check t' k')"
        by (auto simp: List.map_filter_def)
      with assms(4) k show "k' \<noteq> k" by - (cases e, auto split: if_splits)
    qed
    with dedup_set.never_checked_new [OF assms(1) ops_sorted [OF assms(2)]] assms(4) k
    have "cache_stamp (wk_cache (fold mux_step evs w)) k = None" by (simp add: run_cache)
    with fold_mux_cache_inv [OF assms(1,2)] show ?thesis by (auto simp: dedup_set.check_new)
  qed
  then show ?thesis using assms(3) by (auto simp: worker_step_sent forwards_def run_dedup_worker_def)
qed

definition example_worker :: worker where
  "example_worker =
    \<lparr>wk_cache = new_dedup_cache 30000,
     wk_shared = \<lparr>us_upstream_slot = 0, us_messages_received = 0, us_reconnects = 0,
       us_slots = new_slot_tracker, us_replay_on_reconnect = False\<rparr>,
     wk_nodes = [(''a'', new_health ''a''), (''b'', new_health ''b'')],
     wk_total_in = 0, wk_total_out = 0, wk_sent = []\<rparr>"

definition example_slot :: "u64 \<Rightarrow> subscribe_update" where
  "example_slot sl = \<lparr>up_filters = [], up_oneof = Some (USlot \<lparr>su_slot = sl, su_parent = Some (sl - 1),
     su_status = 0, su_dead_error = None, su_bank_id = None\<rparr>), up_created_at = None\<rparr>"

lemma example_worker_inv: "cache_inv 0 (wk_cache example_worker)"
  by (simp add: cache_inv_def example_worker_def new_dedup_cache_def)

lemma example_slot_key: "compute_dedup_key (example_slot sl) = Some (KSlot sl 0)" "\<not> is_pong (example_slot sl)"
  by (simp_all add: compute_dedup_key_def example_slot_def is_pong_def)

theorem no_duplicate_within_window_witness:
  "forwards 5 (example_slot 9) example_worker
   \<and> \<not> forwards 7 (example_slot 9) (run_dedup_worker [EvictTick 6] (worker_step 5 0 ''a'' (example_slot 9) example_worker))"
proof
  show f: "forwards 5 (example_slot 9) example_worker"
    by (simp add: forwards_def example_slot_key check_and_insert_def example_worker_def new_dedup_cache_def)
  show "\<not> forwards 7 (example_slot 9)
      (run_dedup_worker [EvictTick 6] (worker_step 5 0 ''a'' (example_slot 9) example_worker))"
    by (rule no_duplicate_within_window [OF example_worker_inv _ example_slot_key(1) example_slot_key(1) f])
      (simp_all add: example_worker_def new_dedup_cache_def)
qed

theorem first_arrival_forwarded_witness:
  "wk_sent (worker_step 7 0 ''b'' (example_slot 10)
     (run_dedup_worker [Arrive 5 0 ''a'' (example_slot 9), EvictTick 6] example_worker))
   = wk_sent (run_dedup_worker [Arrive 5 0 ''a'' (example_slot 9), EvictTick 6] example_worker) @ [example_slot 10]"
  by (rule first_arrival_forwarded [OF example_worker_inv])
    (auto simp: example_slot_key cache_stamp_def example_worker_def new_dedup_cache_def)

definition from_node :: "string \<Rightarrow> mux_event \<Rightarrow> bool" where
  "from_node n e \<longleftrightarrow> (case e of Arrive _ _ m u \<Rightarrow> m = n \<and> \<not> is_pong u | EvictTick _ \<Rightarrow> False)"

definition is_arrival :: "mux_event \<Rightarrow> bool" where
  "is_arrival e \<longleftrightarrow> (case e of Arrive _ _ _ _ \<Rightarrow> True | EvictTick _ \<Rightarrow> False)"

definition node_score :: "string \<Rightarrow> worker \<Rightarrow> u64 option" where
  "node_score n w = map_option (\<lambda>h. nh_wins h + nh_dupes h) (map_of (wk_nodes w) n)"

lemma on_node_lookup:
  "map_of (wk_nodes (on_node m f w)) n = (if n = m then map_option f (map_of (wk_nodes w) n) else map_of (wk_nodes w) n)"
  by (auto simp: on_node_def alist_simps split: option.splits)

lemma track_slot_messages [simp]: "us_messages_received (track_slot u sh) = us_messages_received sh"
  by (simp add: track_slot_def split: option.splits update_oneof.splits)

lemma worker_step_counts:
  "wk_total_in (worker_step now ms m u w) = wk_total_in w + 1"
  "us_messages_received (wk_shared (worker_step now ms m u w)) = us_messages_received (wk_shared w) + 1"
  "wk_total_out (worker_step now ms m u w) = wk_total_out w + (if forwards now u w then 1 else 0)"
  "node_score n (worker_step now ms m u w) =
     map_option (\<lambda>x. if n = m \<and> \<not> is_pong u then x + 1 else x) (node_score n w)"
  by (auto simp: worker_step_def forwards_def Let_def node_score_def on_node_lookup option.map_comp comp_def
      algebra_simps split: option.splits prod.splits cong: option.map_cong)

text \<open>Counters of the worker: it counts every arrival once, its output counter moves with
  what it sends, and for every configured region the wins and duplicates together grow by exactly the
  number of messages other than pongs that arrived from that region.\<close>

theorem worker_counters:
  "let w' = run_dedup_worker evs w
   in wk_total_in w' = wk_total_in w + of_nat (length (filter is_arrival evs))
    \<and> us_messages_received (wk_shared w') = us_messages_received (wk_shared w) + of_nat (length (filter is_arrival evs))
    \<and> wk_total_out w' - wk_total_out w = of_nat (length (wk_sent w')) - of_nat (length (wk_sent w))
    \<and> node_score n w' = map_option (\<lambda>x. x + of_nat (length (filter (from_node n) evs))) (node_score n w)"
  unfolding run_dedup_worker_def Let_def
proof (induction evs arbitrary: w)
  case (Cons e evs)
  show ?case
  proof (cases e)
    case (Arrive now ms m u)
    then show ?thesis
      using Cons.IH [of "worker_step now ms m u w"]
      by (cases "forwards now u w")
        (auto simp: worker_step_counts worker_step_sent from_node_def is_arrival_def option.map_comp comp_def
          algebra_simps cong: option.map_cong)
  next
    case (EvictTick now)
    then show ?thesis
      using Cons.IH [of "w\<lparr>wk_cache := evict_expired now (wk_cache w)\<rparr>"]
      by (simp add: from_node_def is_arrival_def node_score_def)
  qed
qed (simp add: option.map_id0 [unfolded id_def])



end
