(* ===== verification/Mux.thy ===== *)
theory Mux
  imports Router Grpc_Pool Grpc_Filter Dedup
begin

text \<open>
  The gRPC multiplexer (\<open>src/src/proxy/grpc_mux.rs\<close>): reconnect backoff, the shared upstream
  subscription, the upstream loops of the single-upstream and of the multi-region mode, and the
  per-client loop that filters the broadcast stream. What the network delivers, the random jitter
  and the clock are inputs; each loop is a function over the list of what its iterations meet.
\<close>

section \<open>Backoff\<close>

definition healthy_stream_min :: duration where
  "healthy_stream_min = 5000"

definition backoff_min :: duration where
  "backoff_min = 1000"

definition backoff_max :: duration where
  "backoff_max = 10000"

record backoff =
  bo_cur :: duration

definition new_backoff :: backoff where
  "new_backoff = \<lparr>bo_cur = backoff_min\<rparr>"

text \<open>\<open>rng m\<close> is the random number drawn from \<open>0..=m\<close>.\<close>

definition next_backoff :: "(nat \<Rightarrow> nat) \<Rightarrow> duration option \<Rightarrow> backoff \<Rightarrow> duration \<times> backoff" where
  "next_backoff rng stream_lived b =
    (let cur = (case stream_lived of
                  Some d \<Rightarrow> if d \<ge> healthy_stream_min then backoff_min else bo_cur b
                | None \<Rightarrow> bo_cur b);
         jitter_ms = rng (cur div 2);
         sleep = cur + jitter_ms
     in (sleep, b\<lparr>bo_cur := min (cur * 2) backoff_max\<rparr>))"

section \<open>Status codes\<close>

datatype grpc_code =
    CodeOk | Cancelled | Unknown | InvalidArgument | DeadlineExceeded | NotFound | AlreadyExists
  | PermissionDenied | ResourceExhausted | FailedPrecondition | Aborted | OutOfRange | Unimplemented
  | Internal | Unavailable | DataLoss | Unauthenticated

record grpc_status =
  sta_code :: grpc_code
  sta_message :: string

definition to_ascii_lowercase :: "string \<Rightarrow> string" where
  "to_ascii_lowercase s =
    map (\<lambda>c. if of_char c \<ge> (65::nat) \<and> of_char c \<le> (90::nat) then char_of (of_char c + 32 :: nat) else c) s"

definition is_replay_rejection :: "grpc_status \<Rightarrow> bool" where
  "is_replay_rejection status \<longleftrightarrow>
     sta_code status \<in> {InvalidArgument, OutOfRange, FailedPrecondition}
     \<or> sublist ''from_slot'' (to_ascii_lowercase (sta_message status))"

section \<open>Upstream subscription\<close>

definition build_mux_subscribe_request :: "u64 option \<Rightarrow> subscribe_request" where
  "build_mux_subscribe_request from_slot =
    \<lparr>sr_accounts = [],
     sr_slots = [(''mux_slot'', \<lparr>sf_filter_by_commitment = None, sf_interslot_updates = Some False\<rparr>)],
     sr_transactions =
       [(''mux_tx'', \<lparr>tf_vote = None, tf_failed = None, tf_signature = None, tf_account_include = [],
          tf_account_exclude = [], tf_account_required = [], tf_cuckoo_account_include = None,
          tf_token_accounts = None\<rparr>)],
     sr_transactions_status = [],
     sr_blocks = [],
     sr_blocks_meta = [(''mux_blocks_meta'', ())],
     sr_entry = [(''mux_entry'', \<lparr>ef_include_update_parent = None\<rparr>)],
     sr_commitment = Some 0,
     sr_accounts_data_slice = [],
     sr_ping = None,
     sr_from_slot = from_slot,
     sr_block_footer = [(''mux_block_footer'', \<lparr>ff_include_certificates = None\<rparr>)]\<rparr>"

text \<open>The requests of the pinger after a number of ticks: a counter that wraps at 32 bits.\<close>

definition upstream_ping :: "nat \<Rightarrow> subscribe_request" where
  "upstream_ping tick = default_subscribe_request\<lparr>sr_ping := Some (of_nat tick)\<rparr>"

definition spawn_upstream_pinger :: "nat \<Rightarrow> subscribe_request list" where
  "spawn_upstream_pinger ticks = map upstream_ping [1..<Suc ticks]"

record stream_outcome =
  so_lived :: "duration option"
  so_messages :: u64
  so_error :: "string option"
  so_replay_rejected :: bool

text \<open>What one attempt meets: the answer of a pooled channel's \<open>get\<close> and of dialling a URL afresh, of the
  subscribe call, then the stream (with the wall clock at each item) up to its end, and how long it
  lived.\<close>

record upstream_attempt =
  ua_get :: "managed_channel \<Rightarrow> string + unit"
  ua_dial :: "string \<Rightarrow> string + unit"
  ua_subscribe :: "grpc_status + unit"
  ua_stream :: "(u64 \<times> (grpc_status + subscribe_update)) list"
  ua_lived :: duration

definition open_channel :: "upstream_attempt \<Rightarrow> grpc_pool \<Rightarrow> node_config \<Rightarrow> string + unit" where
  "open_channel a pool nc =
    (case get_channel pool (nc_id nc) of Some managed \<Rightarrow> ua_get a managed | None \<Rightarrow> ua_dial a (nc_grpc_url nc))"

text \<open>The x-token header is attached when configured and a legal metadata value.\<close>

definition upstream_token :: "(string \<Rightarrow> bool) \<Rightarrow> node_config \<Rightarrow> string option" where
  "upstream_token valid nc =
    (if nc_grpc_x_token nc \<noteq> [] \<and> valid (nc_grpc_x_token nc) then Some (nc_grpc_x_token nc) else None)"

section \<open>Single-upstream mode\<close>

record single_state =
  sg_shared :: upstream_shared
  sg_pool :: grpc_pool
  sg_health :: node_health \<comment> \<open>of the node being streamed from\<close>
  sg_sent :: "subscribe_update list"
  sg_requests :: "(subscribe_request \<times> string option) list"

definition receive_single :: "u64 \<Rightarrow> subscribe_update \<Rightarrow> single_state \<Rightarrow> single_state" where
  "receive_single wall_ms update s =
    (let s = s\<lparr>sg_shared := (sg_shared s)\<lparr>us_messages_received := us_messages_received (sg_shared s) + 1\<rparr>,
               sg_health := (sg_health s)\<lparr>nh_last_msg_ms := wall_ms, nh_wins := nh_wins (sg_health s) + 1\<rparr>\<rparr>
     in if is_pong update then s
        else s\<lparr>sg_shared := track_slot update (sg_shared s), sg_sent := sg_sent s @ [update]\<rparr>)"

fun stream_single ::
    "(grpc_status \<Rightarrow> string) \<Rightarrow> string \<Rightarrow> u64 option \<Rightarrow> (u64 \<times> (grpc_status + subscribe_update)) list
     \<Rightarrow> stream_outcome \<Rightarrow> single_state \<Rightarrow> stream_outcome \<times> single_state" where
  "stream_single show_status node_id replay_from [] out s = (out, s)"
| "stream_single show_status node_id replay_from ((wall_ms, Inr update) # items) out s =
    stream_single show_status node_id replay_from items (out\<lparr>so_messages := so_messages out + 1\<rparr>)
      (receive_single wall_ms update s)"
| "stream_single show_status node_id replay_from ((wall_ms, Inl e) # items) out s =
    (out\<lparr>so_replay_rejected := (replay_from \<noteq> None \<and> is_replay_rejection e), so_error := Some (show_status e)\<rparr>,
     s\<lparr>sg_pool := pool_invalidate node_id (sg_pool s)\<rparr>)"

definition connect_and_stream_single ::
    "(grpc_status \<Rightarrow> string) \<Rightarrow> (string \<Rightarrow> bool) \<Rightarrow> node_config \<Rightarrow> upstream_attempt \<Rightarrow> u64 option \<Rightarrow> single_state
     \<Rightarrow> stream_outcome \<times> single_state" where
  "connect_and_stream_single show_status valid nc a replay_from s =
    (let out = \<lparr>so_lived = None, so_messages = 0, so_error = None, so_replay_rejected = False\<rparr>
     in (case open_channel a (sg_pool s) nc of
           Inl e \<Rightarrow> (out\<lparr>so_error := Some (''connect: '' @ e)\<rparr>, s)
         | Inr _ \<Rightarrow>
             let s = s\<lparr>sg_requests := sg_requests s @
                       [(build_mux_subscribe_request replay_from, upstream_token valid nc)]\<rparr>
             in (case ua_subscribe a of
                   Inl e \<Rightarrow>
                     (out\<lparr>so_replay_rejected := (replay_from \<noteq> None \<and> is_replay_rejection e),
                          so_error := Some (''subscribe: '' @ show_status e)\<rparr>,
                      s\<lparr>sg_pool := pool_invalidate (nc_id nc) (sg_pool s)\<rparr>)
                 | Inr _ \<Rightarrow>
                     (case stream_single show_status (nc_id nc) replay_from (ua_stream a) out s of
                        (out, s) \<Rightarrow> (out\<lparr>so_lived := Some (ua_lived a)\<rparr>, s)))))"

definition pick_single_node :: "router \<Rightarrow> node_entry option" where
  "pick_single_node r =
    (case pick_grpc_node r of
       Some n \<Rightarrow> Some n
     | None \<Rightarrow> min_by_key node_priority (get_grpc_eligible_nodes r))"

definition next_replay :: "u64 option \<Rightarrow> stream_outcome \<Rightarrow> upstream_shared \<Rightarrow> u64 option" where
  "next_replay replay_from out sh =
    (let rejected = replay_from \<noteq> None
           \<and> ((so_lived out \<noteq> None \<and> so_messages out = 0) \<or> so_replay_rejected out)
     in if \<not> us_replay_on_reconnect sh then None
        else if rejected then None
        else let last = sk_last_slot (us_slots sh) in if last > 0 then Some last else None)"

record loop_state =
  lp_backoff :: backoff
  lp_replay_from :: "u64 option"
  lp_sleeps :: "duration list" \<comment> \<open>the sleeps taken, latest last\<close>

text \<open>One iteration of the loop: the router as it is then (the health checker changes it), the
  attempt it meets and the random source.\<close>

definition run_single_upstream ::
    "(grpc_status \<Rightarrow> string) \<Rightarrow> (string \<Rightarrow> bool) \<Rightarrow> (nat \<Rightarrow> nat) \<Rightarrow> router \<Rightarrow> upstream_attempt
     \<Rightarrow> loop_state \<times> single_state \<Rightarrow> loop_state \<times> single_state" where
  "run_single_upstream show_status valid rng r a ls =
    (case ls of (l, s) \<Rightarrow>
      (case pick_single_node r of
         None \<Rightarrow> (l\<lparr>lp_sleeps := lp_sleeps l @ [5000]\<rparr>, s)
       | Some node \<Rightarrow>
           let s = s\<lparr>sg_shared := (sg_shared s)\<lparr>us_reconnects := us_reconnects (sg_shared s) + 1\<rparr>,
                     sg_health := ne_health node\<rparr>;
               (out, s) = connect_and_stream_single show_status valid (ne_config node) a (lp_replay_from l) s;
               replay_from = next_replay (lp_replay_from l) out (sg_shared s);
               (sleep, b) = next_backoff rng (so_lived out) (lp_backoff l)
           in (l\<lparr>lp_backoff := b, lp_replay_from := replay_from, lp_sleeps := lp_sleeps l @ [sleep]\<rparr>, s)))"

section \<open>Multi-region mode\<close>

text \<open>The raw channel to the dedup worker is the list of what was sent into it; \<open>accepts\<close> says for how
  many sends the worker is still there.\<close>

record node_stream =
  ns_pool :: grpc_pool
  ns_raw :: "(string \<times> subscribe_update) list"
  ns_accepts :: nat
  ns_requests :: "(subscribe_request \<times> string option) list"
  ns_reconnects :: u64

fun stream_node ::
    "(grpc_status \<Rightarrow> string) \<Rightarrow> string \<Rightarrow> (u64 \<times> (grpc_status + subscribe_update)) list
     \<Rightarrow> stream_outcome \<Rightarrow> node_stream \<Rightarrow> stream_outcome \<times> node_stream" where
  "stream_node show_status node_id [] out s = (out, s)"
| "stream_node show_status node_id ((_, Inr update) # items) out s =
    (let out = out\<lparr>so_messages := so_messages out + 1\<rparr>
     in (case ns_accepts s of
           0 \<Rightarrow> (out, s)
         | Suc n \<Rightarrow> stream_node show_status node_id items out
             (s\<lparr>ns_accepts := n, ns_raw := ns_raw s @ [(node_id, update)]\<rparr>)))"
| "stream_node show_status node_id ((_, Inl e) # items) out s =
    (out\<lparr>so_error := Some (show_status e)\<rparr>, s\<lparr>ns_pool := pool_invalidate node_id (ns_pool s)\<rparr>)"

definition connect_and_stream_node ::
    "(grpc_status \<Rightarrow> string) \<Rightarrow> (string \<Rightarrow> bool) \<Rightarrow> node_config \<Rightarrow> upstream_attempt \<Rightarrow> node_stream
     \<Rightarrow> stream_outcome \<times> node_stream" where
  "connect_and_stream_node show_status valid nc a s =
    (let out = \<lparr>so_lived = None, so_messages = 0, so_error = None, so_replay_rejected = False\<rparr>
     in (case open_channel a (ns_pool s) nc of
           Inl e \<Rightarrow> (out\<lparr>so_error := Some (''connect: '' @ e)\<rparr>, s)
         | Inr _ \<Rightarrow>
             let s = s\<lparr>ns_requests := ns_requests s @ [(build_mux_subscribe_request None, upstream_token valid nc)]\<rparr>
             in (case ua_subscribe a of
                   Inl e \<Rightarrow>
                     (out\<lparr>so_error := Some (''subscribe: '' @ show_status e)\<rparr>,
                      s\<lparr>ns_pool := pool_invalidate (nc_id nc) (ns_pool s)\<rparr>)
                 | Inr _ \<Rightarrow>
                     (case stream_node show_status (nc_id nc) (ua_stream a) out s of
                        (out, s) \<Rightarrow> (out\<lparr>so_lived := Some (ua_lived a)\<rparr>, s)))))"

text \<open>The node's loop over the attempts it meets; it returns when the stream ended without error and
  the dedup worker is gone.\<close>

fun run_upstream_loop_for_node ::
    "(grpc_status \<Rightarrow> string) \<Rightarrow> (string \<Rightarrow> bool) \<Rightarrow> (nat \<Rightarrow> nat) \<Rightarrow> node_config \<Rightarrow> upstream_attempt list
     \<Rightarrow> backoff \<Rightarrow> duration list \<Rightarrow> node_stream \<Rightarrow> bool \<times> duration list \<times> node_stream" where
  "run_upstream_loop_for_node show_status valid rng nc [] b sleeps s = (False, sleeps, s)"
| "run_upstream_loop_for_node show_status valid rng nc (a # as) b sleeps s =
    (let s = s\<lparr>ns_reconnects := ns_reconnects s + 1\<rparr>;
         (out, s) = connect_and_stream_node show_status valid nc a s
     in if so_error out = None \<and> ns_accepts s = 0 then (True, sleeps, s)
        else let (sleep, b) = next_backoff rng (so_lived out) b
             in run_upstream_loop_for_node show_status valid rng nc as b (sleeps @ [sleep]) s)"

section \<open>Client streams\<close>

text \<open>
  The broadcast channel keeps the last \<open>cap\<close> messages. A receiver that reads at a position that was
  overwritten is told how many messages it lost and moves to the oldest one kept.
\<close>

datatype 'm recv_result = Got 'm | Lagged nat | NothingYet

definition broadcast_recv :: "nat \<Rightarrow> 'm list \<Rightarrow> nat \<Rightarrow> 'm recv_result \<times> nat" where
  "broadcast_recv cap sent pos =
    (if pos + cap < length sent then (Lagged (length sent - cap - pos), length sent - cap)
     else if pos < length sent then (Got (sent ! pos), Suc pos)
     else (NothingYet, pos))"

datatype client_item = Update subscribe_update | Pong subscribe_update | Failure grpc_status

text \<open>What a send into the client's channel meets.\<close>

datatype send_result = SendOk | SendCancelled | SendDropped

datatype client_end = ClientCancelled | StreamDropped | SlowConsumer | BroadcastClosed

record client_stream =
  cs_pos :: nat
  cs_delivered :: "client_item list"
  cs_forwarded :: u64
  cs_lag_events :: u64
  cs_lag_messages :: u64
  cs_reason :: "client_end option"

definition new_client_stream :: "nat \<Rightarrow> client_stream" where
  "new_client_stream pos =
    \<lparr>cs_pos = pos, cs_delivered = [], cs_forwarded = 0, cs_lag_events = 0, cs_lag_messages = 0,
     cs_reason = None\<rparr>"

definition data_loss :: "(nat \<Rightarrow> string) \<Rightarrow> nat \<Rightarrow> grpc_status" where
  "data_loss show_nat n =
    \<lparr>sta_code = DataLoss,
     sta_message = ''Stream too slow: '' @ show_nat n @ '' messages dropped due to consumer lag''\<rparr>"

definition deliver :: "send_result \<Rightarrow> client_item \<Rightarrow> client_stream \<Rightarrow> client_stream" where
  "deliver sr item c =
    (case sr of
       SendOk \<Rightarrow> c\<lparr>cs_delivered := cs_delivered c @ [item]\<rparr>
     | SendCancelled \<Rightarrow> c\<lparr>cs_reason := Some ClientCancelled\<rparr>
     | SendDropped \<Rightarrow> c\<lparr>cs_reason := Some StreamDropped\<rparr>)"

text \<open>One iteration on a broadcast result.\<close>

definition on_recv ::
    "(nat \<Rightarrow> string) \<Rightarrow> u64 \<Rightarrow> compiled_filters \<Rightarrow> send_result \<Rightarrow> subscribe_update recv_result \<Rightarrow> client_stream
     \<Rightarrow> client_stream" where
  "on_recv show_nat max_lag_events filters sr res c =
    (case res of
       NothingYet \<Rightarrow> c
     | Got update \<Rightarrow>
         if is_pong update then c
         else (case match_update filters update of
                 None \<Rightarrow> c
               | Some matched_filters \<Rightarrow>
                   let c = deliver sr (Update (update\<lparr>up_filters := matched_filters\<rparr>)) c
                   in if sr = SendOk then c\<lparr>cs_forwarded := cs_forwarded c + 1\<rparr> else c)
     | Lagged n \<Rightarrow>
         let c = c\<lparr>cs_lag_events := cs_lag_events c + 1, cs_lag_messages := cs_lag_messages c + of_nat n\<rparr>;
             cut = (max_lag_events \<noteq> 0 \<and> cs_lag_events c \<ge> max_lag_events)
         in if cut
            then c\<lparr>cs_delivered := cs_delivered c @ (if sr = SendOk then [Failure (data_loss show_nat n)] else []),
                   cs_reason := Some SlowConsumer\<rparr>
            else c)"

text \<open>The world of one client: upstream messages are published, the client's task polls, a pong for
  the client is queued and delivered, the client goes away.\<close>

datatype client_event = Publish subscribe_update | Poll send_result | PongReady send_result subscribe_update
  | ClientGone client_end

fun client_step ::
    "(nat \<Rightarrow> string) \<Rightarrow> nat \<Rightarrow> u64 \<Rightarrow> compiled_filters \<Rightarrow> client_event
     \<Rightarrow> subscribe_update list \<times> client_stream \<Rightarrow> subscribe_update list \<times> client_stream" where
  "client_step show_nat cap mle filters (Publish u) (sent, c) = (sent @ [u], c)"
| "client_step show_nat cap mle filters (Poll sr) (sent, c) =
    (if cs_reason c \<noteq> None then (sent, c)
     else (case broadcast_recv cap sent (cs_pos c) of
             (res, pos) \<Rightarrow> (sent, on_recv show_nat mle filters sr res (c\<lparr>cs_pos := pos\<rparr>))))"
| "client_step show_nat cap mle filters (PongReady sr u) (sent, c) =
    (if cs_reason c \<noteq> None then (sent, c) else (sent, deliver sr (Pong u) c))"
| "client_step show_nat cap mle filters (ClientGone why) (sent, c) =
    (if cs_reason c \<noteq> None then (sent, c) else (sent, c\<lparr>cs_reason := Some why\<rparr>))"

definition subscribe_filtered ::
    "(nat \<Rightarrow> string) \<Rightarrow> nat \<Rightarrow> u64 \<Rightarrow> compiled_filters \<Rightarrow> client_event list \<Rightarrow> subscribe_update list
     \<Rightarrow> subscribe_update list \<times> client_stream" where
  "subscribe_filtered show_nat cap mle filters evs sent =
    fold (client_step show_nat cap mle filters) evs (sent, new_client_stream (length sent))"

section \<open>Construction\<close>

datatype mux_task =
    NodeLoop string bool \<comment> \<open>node id, replay on reconnect\<close>
  | DedupWorker duration "string list" \<comment> \<open>window in seconds, known nodes\<close>
  | EvictionTimer nat \<comment> \<open>interval in seconds\<close>
  | SingleLoop bool

definition new_multiplexer :: "router \<Rightarrow> grpc_config \<Rightarrow> mux_task list" where
  "new_multiplexer r cfg =
    (if gr_multi_region_enabled cfg
     then let nodes = get_grpc_eligible_nodes r
          in map (\<lambda>n. NodeLoop (nc_id (ne_config n)) False) nodes
             @ [DedupWorker (unat (gr_dedup_window_secs cfg)) (map (\<lambda>n. nc_id (ne_config n)) nodes),
                EvictionTimer (unat (max (gr_dedup_eviction_interval_secs cfg) 1))]
     else [SingleLoop (gr_replay_on_reconnect cfg)])"

section \<open>Lemmas\<close>

definition backoff_after :: "(nat \<Rightarrow> nat) \<Rightarrow> duration option list \<Rightarrow> backoff" where
  "backoff_after rng lives = fold (\<lambda>lived b. snd (next_backoff rng lived b)) lives new_backoff"

lemma backoff_after_range: "1000 \<le> bo_cur (backoff_after rng lives) \<and> bo_cur (backoff_after rng lives) \<le> 10000"
  by (induction lives rule: rev_induct)
    (auto simp: backoff_after_def new_backoff_def next_backoff_def Let_def backoff_min_def backoff_max_def
      split: option.splits)

lemma backoff_escalates: "bo_cur (backoff_after rng (replicate n None)) = min (1000 * 2 ^ n) 10000"
  by (induction n)
    (auto simp: backoff_after_def new_backoff_def next_backoff_def Let_def backoff_min_def backoff_max_def
      replicate_append_same [symmetric] simp del: replicate.simps)

lemma track_slot_frame [simp]:
  "us_replay_on_reconnect (track_slot u sh) = us_replay_on_reconnect sh"
  by (simp add: track_slot_def split: option.splits update_oneof.splits)

lemma track_slot_last: "sk_last_slot (us_slots sh) \<le> sk_last_slot (us_slots (track_slot u sh))"
  by (simp add: track_slot_def observe_def raise_last_max Let_def split: option.splits update_oneof.splits)

lemma receive_single_frame [simp]:
  "us_replay_on_reconnect (sg_shared (receive_single ms u s)) = us_replay_on_reconnect (sg_shared s)"
  "sg_requests (receive_single ms u s) = sg_requests s"
  "sg_sent (receive_single ms u s) = sg_sent s @ (if is_pong u then [] else [u])"
  "us_reconnects (sg_shared (receive_single ms u s)) = us_reconnects (sg_shared s)"
  by (simp_all add: receive_single_def Let_def track_slot_def split: option.splits update_oneof.splits)

lemma receive_single_last:
  "sk_last_slot (us_slots (sg_shared s)) \<le> sk_last_slot (us_slots (sg_shared (receive_single ms u s)))"
proof -
  let ?sh = "(sg_shared s)\<lparr>us_messages_received := us_messages_received (sg_shared s) + 1\<rparr>"
  show ?thesis using track_slot_last [of ?sh u] by (simp add: receive_single_def Let_def)
qed

text \<open>The updates a stream delivers before it ends or fails.\<close>

definition received :: "(u64 \<times> (grpc_status + subscribe_update)) list \<Rightarrow> subscribe_update list" where
  "received items = map (\<lambda>x. projr (snd x)) (takeWhile (\<lambda>x. isl (snd x) = False) items)"

lemma received_simps [simp]:
  "received [] = []" "received ((ms, Inr u) # items) = u # received items" "received ((ms, Inl e) # items) = []"
  by (simp_all add: received_def)

lemma stream_single_spec:
  assumes "stream_single show_status nid rf items out s = (out', s')"
  shows "sg_sent s' = sg_sent s @ filter (\<lambda>u. \<not> is_pong u) (received items)"
    and "so_messages out' = so_messages out + of_nat (length (received items))"
    and "so_lived out' = so_lived out"
    and "us_replay_on_reconnect (sg_shared s') = us_replay_on_reconnect (sg_shared s)"
    and "sk_last_slot (us_slots (sg_shared s)) \<le> sk_last_slot (us_slots (sg_shared s'))"
    and "sg_requests s' = sg_requests s"
  using assms
  by (induction show_status nid rf items out s rule: stream_single.induct)
    (auto simp: algebra_simps intro: order_trans [OF receive_single_last])

lemma connect_single_spec:
  assumes "connect_and_stream_single show_status valid nc a rf s = (out, s')"
  shows "us_replay_on_reconnect (sg_shared s') = us_replay_on_reconnect (sg_shared s)"
    and "sk_last_slot (us_slots (sg_shared s)) \<le> sk_last_slot (us_slots (sg_shared s'))"
    and "open_channel a (sg_pool s) nc = Inr () \<Longrightarrow> sg_requests s' = sg_requests s @ [(build_mux_subscribe_request rf, upstream_token valid nc)]"
    and "open_channel a (sg_pool s) nc = Inl e \<Longrightarrow> sg_shared s' = sg_shared s \<and> so_lived out = None \<and> \<not> so_replay_rejected out"
    and "open_channel a (sg_pool s) nc = Inr () \<Longrightarrow> ua_subscribe a = Inl st \<Longrightarrow>
      so_replay_rejected out = (rf \<noteq> None \<and> is_replay_rejection st) \<and> so_lived out = None"
    and "open_channel a (sg_pool s) nc = Inr () \<Longrightarrow> ua_subscribe a = Inr () \<Longrightarrow>
      sg_sent s' = sg_sent s @ filter (\<lambda>u. \<not> is_pong u) (received (ua_stream a))
      \<and> so_messages out = of_nat (length (received (ua_stream a))) \<and> so_lived out = Some (ua_lived a)"
  using assms
  by (auto simp: connect_and_stream_single_def Let_def split: sum.splits prod.splits dest: stream_single_spec)

lemma stream_node_spec:
  assumes "stream_node show_status nid items out s = (out', s')"
  shows "ns_raw s' = ns_raw s @ map (Pair nid) (take (ns_accepts s) (received items))"
    and "ns_requests s' = ns_requests s"
  using assms
  by (induction show_status nid items out s rule: stream_node.induct)
    (auto simp: Let_def split: nat.splits)

section \<open>Properties\<close>

text \<open>Backoff: every reconnect waits at least one second and at most fifteen, a stream that
  lived five seconds resets the wait to at most one and a half seconds, and after \<open>n\<close> immediate
  failures the base wait is \<open>2\<^sup>n\<close> seconds capped at ten.\<close>

theorem backoff_bounds:
  assumes "\<forall>m. rng m \<le> m"
  defines "sleep \<equiv> \<lambda>lives lived. fst (next_backoff rng lived (backoff_after rng lives))"
  shows "1000 \<le> sleep lives lived \<and> sleep lives lived \<le> 15000
    \<and> (\<forall>d. lived = Some d \<and> d \<ge> healthy_stream_min \<longrightarrow> sleep lives lived \<le> 1500)
    \<and> min (1000 * 2 ^ n) 10000 \<le> sleep (replicate n None) None"
proof -
  let ?b = "backoff_after rng lives"
  have r: "rng (c div 2) \<le> c div 2" for c using assms(1) by blast
  have "fst (next_backoff rng lived ?b) \<le> 15000"
    using backoff_after_range [of rng lives] r [of "bo_cur ?b"] r [of 1000]
    by (auto simp: next_backoff_def Let_def backoff_min_def split: option.splits)
  moreover have "lived = Some d \<Longrightarrow> d \<ge> healthy_stream_min \<Longrightarrow> fst (next_backoff rng lived ?b) \<le> 1500" for d
    using r [of 1000] by (simp add: next_backoff_def Let_def backoff_min_def)
  moreover have "1000 \<le> fst (next_backoff rng lived ?b)"
    using backoff_after_range [of rng lives]
    by (auto simp: next_backoff_def Let_def backoff_min_def split: option.splits)
  ultimately show ?thesis
    unfolding sleep_def using backoff_escalates [of rng n]
    by (auto simp: next_backoff_def Let_def)
qed

theorem backoff_bounds_witness:
  "1000 \<le> fst (next_backoff (\<lambda>m. m) None (backoff_after (\<lambda>m. m) [None, Some 7]))
   \<and> fst (next_backoff (\<lambda>m. m) None (backoff_after (\<lambda>m. m) [None, Some 7])) \<le> 15000"
  using backoff_bounds [where rng = "\<lambda>m. m" and lives = "[None, Some 7]" and lived = None] by simp


definition example_attempt :: upstream_attempt where
  "example_attempt = \<lparr>ua_get = (\<lambda>_. Inr ()), ua_dial = (\<lambda>_. Inr ()), ua_subscribe = Inr (), ua_stream = [(1, Inr (example_slot 9))], ua_lived = 20\<rparr>"

definition example_single :: single_state where
  "example_single =
    \<lparr>sg_shared = \<lparr>us_upstream_slot = 0, us_messages_received = 0, us_reconnects = 0,
       us_slots = new_slot_tracker, us_replay_on_reconnect = True\<rparr>,
     sg_pool = [], sg_health = new_health [], sg_sent = [], sg_requests = []\<rparr>"

definition example_loop :: loop_state where
  "example_loop = \<lparr>lp_backoff = new_backoff, lp_replay_from = Some 7, lp_sleeps = []\<rparr>"


text \<open>The single-upstream loop connects whenever any gRPC-eligible node is configured, healthy
  or not: to the best node that passes the health checks if one does, else to the best eligible one.\<close>

theorem single_upstream_node:
  "(pick_single_node r = None \<longleftrightarrow> get_grpc_eligible_nodes r = [])
   \<and> (pick_grpc_node r \<noteq> None \<longrightarrow> pick_single_node r = pick_grpc_node r)
   \<and> (\<forall>n n'. pick_grpc_node r = None \<and> pick_single_node r = Some n \<and> n' \<in> set (get_grpc_eligible_nodes r)
        \<longrightarrow> node_priority n \<le> node_priority n')"
proof -
  have "pick_grpc_node r = Some n \<Longrightarrow> n \<in> set (get_grpc_eligible_nodes r)" for n
    unfolding pick_grpc_node_def get_grpc_eligible_nodes_def by (drule min_by_key_in) simp
  then show ?thesis
    by (auto simp: pick_single_node_def split: option.splits dest: min_by_key_le)
qed



definition client_update :: "compiled_filters \<Rightarrow> subscribe_update \<Rightarrow> subscribe_update option" where
  "client_update filters u =
    (if is_pong u then None else map_option (\<lambda>m. u\<lparr>up_filters := m\<rparr>) (match_update filters u))"

definition client_view :: "compiled_filters \<Rightarrow> subscribe_update list \<Rightarrow> subscribe_update list" where
  "client_view filters us = List.map_filter (client_update filters) us"

definition updates_given :: "client_stream \<Rightarrow> subscribe_update list" where
  "updates_given c = List.map_filter (\<lambda>x. case x of Update u \<Rightarrow> Some u | _ \<Rightarrow> None) (cs_delivered c)"

lemma client_view_append: "client_view f (xs @ ys) = client_view f xs @ client_view f ys"
  by (simp add: client_view_def List.map_filter_def)

definition no_hole :: "compiled_filters \<Rightarrow> nat \<Rightarrow> subscribe_update list \<times> client_stream \<Rightarrow> bool" where
  "no_hole filters start sc = (case sc of (sent, c) \<Rightarrow>
     \<exists>p. start \<le> p \<and> p \<le> length sent
       \<and> updates_given c = client_view filters (drop start (take p sent))
       \<and> (if cs_reason c = None then cs_pos c = p \<and> cs_lag_events c = 0
          else cs_lag_events c \<noteq> 0 \<longrightarrow> cs_reason c = Some SlowConsumer))"

lemma view_Suc:
  "start \<le> pos \<Longrightarrow> pos < length sent \<Longrightarrow>
   client_view f (drop start (take (Suc pos) sent)) = client_view f (drop start (take pos sent))
     @ (case client_update f (sent ! pos) of None \<Rightarrow> [] | Some x \<Rightarrow> [x])"
  by (simp add: take_Suc_conv_app_nth client_view_append)
    (simp add: client_view_def List.map_filter_simps split: option.splits)

lemma updates_given_deliver:
  "updates_given (deliver sr item c) =
    updates_given c @ (case item of Update u \<Rightarrow> if sr = SendOk then [u] else [] | _ \<Rightarrow> [])"
  by (simp add: deliver_def updates_given_def List.map_filter_def split: send_result.splits client_item.splits)

lemma updates_given_frame [simp]:
  "updates_given (c\<lparr>cs_pos := p\<rparr>) = updates_given c" "updates_given (c\<lparr>cs_reason := r\<rparr>) = updates_given c"
  "updates_given (c\<lparr>cs_forwarded := n\<rparr>) = updates_given c" "updates_given (c\<lparr>cs_lag_events := n\<rparr>) = updates_given c"
  "updates_given (c\<lparr>cs_lag_messages := n\<rparr>) = updates_given c"
  "updates_given (c\<lparr>cs_delivered := cs_delivered c @ [Failure e]\<rparr>) = updates_given c"
  by (simp_all add: updates_given_def List.map_filter_def)

lemma deliver_frame [simp]:
  "cs_pos (deliver sr i c) = cs_pos c" "cs_lag_events (deliver sr i c) = cs_lag_events c"
  "cs_reason (deliver sr i c) = (case sr of SendOk \<Rightarrow> cs_reason c | SendCancelled \<Rightarrow> Some ClientCancelled
     | SendDropped \<Rightarrow> Some StreamDropped)"
  by (simp_all add: deliver_def split: send_result.splits)

lemma poll_got:
  assumes "no_hole f start (sent, c)" "cs_reason c = None" "cs_pos c < length sent"
  shows "no_hole f start (sent, on_recv show_nat mle f sr (Got (sent ! cs_pos c)) (c\<lparr>cs_pos := Suc (cs_pos c)\<rparr>))"
proof -
  let ?u = "sent ! cs_pos c" and ?c = "on_recv show_nat mle f sr (Got (sent ! cs_pos c)) (c\<lparr>cs_pos := Suc (cs_pos c)\<rparr>)"
  have p: "start \<le> cs_pos c" "updates_given c = client_view f (drop start (take (cs_pos c) sent))"
    "cs_lag_events c = 0" using assms(1,2) by (auto simp: no_hole_def)
  have lag: "cs_lag_events ?c = 0" using p(3) by (simp add: on_recv_def Let_def split: option.splits)
  show ?thesis
  proof (cases "client_update f ?u = None \<or> sr = SendOk")
    case True
    then have "updates_given ?c = client_view f (drop start (take (Suc (cs_pos c)) sent))"
      using view_Suc [OF p(1) assms(3), of f] p(2)
      by (auto simp: on_recv_def client_update_def updates_given_deliver Let_def split: option.splits if_splits)
    moreover have "cs_reason ?c = None" "cs_pos ?c = Suc (cs_pos c)"
      using True assms(2) by (auto simp: on_recv_def client_update_def Let_def split: option.splits)
    ultimately show ?thesis using p(1) assms(3) lag by (auto simp: no_hole_def)
  next
    case False
    then have "updates_given ?c = updates_given c" "cs_reason ?c \<noteq> None"
      by (auto simp: on_recv_def client_update_def updates_given_deliver Let_def split: option.splits if_splits send_result.splits)
    with p assms(3) lag show ?thesis by (auto simp: no_hole_def intro!: exI [of _ "cs_pos c"])
  qed
qed

lemma poll_lagged:
  assumes "no_hole f start (sent, c)" "cs_reason c = None"
  shows "no_hole f start (sent, on_recv show_nat 1 f sr (Lagged n) (c\<lparr>cs_pos := q\<rparr>))"
  using assms
  by (auto simp: no_hole_def on_recv_def Let_def updates_given_def List.map_filter_def
      intro!: exI [of _ "cs_pos c"])

lemma no_hole_step:
  assumes "no_hole f start (sent, c)"
  shows "no_hole f start (client_step show_nat cap 1 f ev (sent, c))"
proof (cases ev)
  case (Publish u)
  from assms obtain p where "start \<le> p" "p \<le> length sent"
    "updates_given c = client_view f (drop start (take p sent))"
    "if cs_reason c = None then cs_pos c = p \<and> cs_lag_events c = 0
          else cs_lag_events c \<noteq> 0 \<longrightarrow> cs_reason c = Some SlowConsumer" by (auto simp: no_hole_def)
  then show ?thesis using Publish by (auto simp: no_hole_def intro!: exI [of _ p])
next
  case (Poll sr)
  show ?thesis
  proof (cases "cs_reason c = None")
    case True
    have same: "c\<lparr>cs_pos := cs_pos c\<rparr> = c" by simp
    show ?thesis
      using Poll True assms poll_got [OF assms True] poll_lagged [OF assms True]
      by (auto simp: broadcast_recv_def) (simp add: on_recv_def same)
  qed (use Poll assms in auto)
next
  case (PongReady sr u)
  then show ?thesis
    using assms by (cases "cs_reason c = None"; cases sr) (auto simp: no_hole_def updates_given_deliver)
next
  case (ClientGone why)
  then show ?thesis using assms by (auto simp: no_hole_def)
qed



end
