(* ===== verification/Firewall.thy ===== *)
theory Firewall
  imports Config Access_Store
begin

text \<open>
  Firewall synchronisation (\<open>src/src/middleware/firewall.rs\<close>) and its call at start-up
  (\<open>src/src/main.rs\<close>). The \<open>nft\<close> and \<open>iptables\<close> programs and the kernel's rule set they change are
  arguments: a run of \<open>nft -f -\<close> takes what it finds on its standard input, a run of \<open>iptables\<close> its
  argument vector. A \<open>HashSet\<close> is the list of its elements in iteration order.
\<close>

section \<open>Operations\<close>

fun join :: "string \<Rightarrow> string list \<Rightarrow> string" where
  "join sep [] = []"
| "join sep [x] = x"
| "join sep (x # xs) = x @ sep @ join sep xs"

record 's firewall_env =
  fe_show_ip :: "ip_addr \<Rightarrow> string"
  fe_show_port :: "u16 \<Rightarrow> string"
  fe_nft :: "string \<Rightarrow> 's \<Rightarrow> string + (bool \<times> 's)" \<comment> \<open>standard input; exit status\<close>
  fe_iptables :: "string list \<Rightarrow> 's \<Rightarrow> 's"

definition nft_accept :: "'s firewall_env \<Rightarrow> string \<Rightarrow> string \<Rightarrow> ip_addr \<Rightarrow> string" where
  "nft_accept env chain_name ports_str ip =
    ''add rule inet filter '' @ chain_name @ '' ip saddr '' @ fe_show_ip env ip @ '' tcp dport { '' @ ports_str
      @ '' } accept'' @ [CHR 0x0A]"

definition nft_rules :: "'s firewall_env \<Rightarrow> ip_addr list \<Rightarrow> string \<Rightarrow> u16 list \<Rightarrow> string" where
  "nft_rules env ips chain_name ports =
    (let ports_str = join '', '' (map (fe_show_port env) ports);
         rules = ''flush chain inet filter '' @ chain_name @ [CHR 0x0A];
         rules = fold (\<lambda>ip rules. rules @ nft_accept env chain_name ports_str ip) ips rules
     in rules @ ''add rule inet filter '' @ chain_name @ '' tcp dport { '' @ ports_str @ '' } drop'' @ [CHR 0x0A])"

text \<open>The child's standard input is a pipe to which nothing is written; \<open>wait_with_output\<close> closes it,
  so \<open>nft\<close> reads the empty script. An unsuccessful exit is only logged.\<close>

definition sync_nftables ::
    "'s firewall_env \<Rightarrow> ip_addr list \<Rightarrow> string \<Rightarrow> u16 list \<Rightarrow> 's \<Rightarrow> (string + unit) \<times> 's" where
  "sync_nftables env ips chain_name ports s =
    (let rules = nft_rules env ips chain_name ports; stdin = []
     in (case fe_nft env stdin s of
           Inl e \<Rightarrow> (Inl e, s)
         | Inr (success, s) \<Rightarrow> (Inr (), s)))"

definition accept_rule :: "'s firewall_env \<Rightarrow> string \<Rightarrow> ip_addr \<Rightarrow> string list" where
  "accept_rule env ports_str ip =
    [''-s'', fe_show_ip env ip, ''-p'', ''tcp'', ''-m'', ''multiport'', ''--dports'', ports_str, ''-j'', ''ACCEPT'']"

definition drop_rule :: "string \<Rightarrow> string list" where
  "drop_rule ports_str = [''-p'', ''tcp'', ''-m'', ''multiport'', ''--dports'', ports_str, ''-j'', ''DROP'']"

definition sync_iptables ::
    "'s firewall_env \<Rightarrow> ip_addr list \<Rightarrow> string \<Rightarrow> u16 list \<Rightarrow> 's \<Rightarrow> (string + unit) \<times> 's" where
  "sync_iptables env ips chain_name ports s =
    (let ports_str = join '','' (map (fe_show_port env) ports);
         s = fe_iptables env [''-F'', chain_name] s;
         s = fe_iptables env [''-N'', chain_name] s;
         s = fold (\<lambda>ip s. fe_iptables env ([''-A'', chain_name] @ accept_rule env ports_str ip) s) ips s;
         s = fe_iptables env ([''-A'', chain_name] @ drop_rule ports_str) s
     in (Inr (), s))"

definition sync_firewall ::
    "'s firewall_env \<Rightarrow> ip_addr list \<Rightarrow> firewall_config \<Rightarrow> u16 list \<Rightarrow> 's \<Rightarrow> (string + unit) \<times> 's" where
  "sync_firewall env ips config ports s =
    (if \<not> fw_enabled config then (Inr (), s)
     else if fw_backend config = ''nftables'' then sync_nftables env ips (fw_chain_name config) ports s
     else if fw_backend config = ''iptables'' then sync_iptables env ips (fw_chain_name config) ports s
     else (Inl (''Unknown firewall backend: '' @ fw_backend config), s))"

text \<open>The call at start-up, on the fixed ports; \<open>ips\<close> enumerates \<open>whitelist_set\<close>. A failure is logged.\<close>

definition startup_ports :: "u16 list" where
  "startup_ports = [8899, 8900, 10101, 20202]"

definition startup_firewall :: "'s firewall_env \<Rightarrow> ip_addr list \<Rightarrow> config \<Rightarrow> 's \<Rightarrow> 's" where
  "startup_firewall env ips c s =
    (if fw_enabled (cfg_firewall c) then snd (sync_firewall env ips (cfg_firewall c) startup_ports s) else s)"

section \<open>Lemmas\<close>

text \<open>What the code relies on of \<open>iptables\<close>, with \<open>tbl\<close> the rules of each existing chain: flushing
  empties an existing chain, creating adds a missing one, appending appends to an existing one.\<close>

definition iptables_laws :: "'s firewall_env \<Rightarrow> ('s \<Rightarrow> string \<rightharpoonup> string list list) \<Rightarrow> bool" where
  "iptables_laws env tbl \<longleftrightarrow>
     (\<forall>s c. tbl (fe_iptables env [''-F'', c] s)
        = (case tbl s c of None \<Rightarrow> tbl s | Some rs \<Rightarrow> (tbl s)(c \<mapsto> [])))
   \<and> (\<forall>s c. tbl (fe_iptables env [''-N'', c] s)
        = (case tbl s c of None \<Rightarrow> (tbl s)(c \<mapsto> []) | Some rs \<Rightarrow> tbl s))
   \<and> (\<forall>s c r. tbl (fe_iptables env ([''-A'', c] @ r) s)
        = (case tbl s c of None \<Rightarrow> tbl s | Some rs \<Rightarrow> (tbl s)(c \<mapsto> rs @ [r])))"

lemma append_rules:
  assumes "iptables_laws env tbl" "tbl s c = Some rs"
  shows "tbl (fold (\<lambda>x s. fe_iptables env ([''-A'', c] @ f x) s) xs s) = (tbl s)(c \<mapsto> rs @ map f xs)"
  using assms(2)
proof (induction xs arbitrary: s rs)
  case (Cons x xs)
  have "tbl (fe_iptables env ([''-A'', c] @ f x) s) = (tbl s)(c \<mapsto> rs @ [f x])"
    using assms(1) Cons.prems unfolding iptables_laws_def by (simp del: append_Cons append_Nil)
  with Cons.IH [of "fe_iptables env ([''-A'', c] @ f x) s" "rs @ [f x]"] show ?case by (auto simp: fun_eq_iff)
qed (simp add: fun_upd_idem)

lemma fresh_chain:
  assumes "iptables_laws env tbl"
  shows "tbl (fe_iptables env [''-N'', c] (fe_iptables env [''-F'', c] s)) = (tbl s)(c \<mapsto> [])"
  using assms unfolding iptables_laws_def by (cases "tbl s c") (simp_all add: fun_upd_same)

text \<open>The \<open>nftables\<close> backend passes no rule to \<open>nft\<close>: its effect does not depend on the whitelist, the
  chain or the ports, although it reports the number of addresses as synced.\<close>

lemma nftables_sync_ignores_whitelist:
  "sync_nftables env ips chain_name ports s = sync_nftables env ips' chain_name' ports' s"
  by (simp add: sync_nftables_def)

lemma nftables_sync_without_effect:
  assumes "\<And>s. fe_nft env [] s = Inr (True, s)"
  shows "sync_nftables env ips chain_name ports s = (Inr (), s)"
  using assms by (simp add: sync_nftables_def)

section \<open>Properties\<close>


fun example_iptables :: "string list \<Rightarrow> (string \<rightharpoonup> string list list) \<Rightarrow> (string \<rightharpoonup> string list list)" where
  "example_iptables (cmd # c # r) m =
    (case m c of
       None \<Rightarrow> if cmd = ''-N'' then m(c \<mapsto> []) else m
     | Some rs \<Rightarrow> if cmd = ''-F'' then m(c \<mapsto> []) else if cmd = ''-A'' then m(c \<mapsto> rs @ [r]) else m)"
| "example_iptables args m = m"

definition example_firewall_env :: "(string \<rightharpoonup> string list list) firewall_env" where
  "example_firewall_env = \<lparr>fe_show_ip = (\<lambda>_. ''10.0.0.1''), fe_show_port = (\<lambda>_. ''8899''),
     fe_nft = (\<lambda>_ s. Inr (True, s)), fe_iptables = example_iptables\<rparr>"

lemma example_iptables_laws: "iptables_laws example_firewall_env id"
  by (simp add: iptables_laws_def example_firewall_env_def split: option.splits)


end
