(* ===== verification/Startup.thy ===== *)
theory Startup
  imports Dashboard_Routes Mux Firewall
begin

text \<open>
  The process around the proxies (\<open>src/src/main.rs\<close>, \<open>src/src/shutdown.rs\<close>,
  \<open>src/src/proxy/tcp_listener.rs\<close>): start-up from the configuration file, the periodic tasks, the
  SIGHUP path, shutdown, worker thread pinning and the options of the listening sockets. The
  operating system's answers (files, CPU count, socket calls, signals) are inputs.
\<close>

section \<open>Logging and threads\<close>

text \<open>The configured level is the baseline, \<open>RUST_LOG\<close> only adds to it.\<close>

definition filter_spec :: "string \<Rightarrow> string option \<Rightarrow> string" where
  "filter_spec log_level rust_log =
    (case rust_log of
       Some extra \<Rightarrow> if trim extra \<noteq> [] then log_level @ '','' @ extra else log_level
     | None \<Rightarrow> log_level)"

definition num_cpus :: "usize option \<Rightarrow> usize" where
  "num_cpus available = (case available of Some n \<Rightarrow> n | None \<Rightarrow> 4)"

definition worker_threads :: "usize option \<Rightarrow> cpu_config \<Rightarrow> usize" where
  "worker_threads available cpu =
    (case cpu_worker_threads cpu of
       Some n \<Rightarrow> n
     | None \<Rightarrow> if cpu_cores cpu = [] then num_cpus available else max (of_nat (length (cpu_cores cpu))) 1)"

text \<open>The thread-start hook: the shared index is taken and raised, the thread pinned to that core.\<close>

definition on_thread_start :: "usize list \<Rightarrow> usize \<Rightarrow> usize option \<times> usize" where
  "on_thread_start cores thread_idx =
    (if cores = [] then (None, thread_idx)
     else (Some (cores ! (unat thread_idx mod length cores)), thread_idx + 1))"

fun start_threads :: "usize list \<Rightarrow> nat \<Rightarrow> usize \<Rightarrow> usize option list" where
  "start_threads cores 0 idx = []"
| "start_threads cores (Suc n) idx =
    (case on_thread_start cores idx of (core, idx) \<Rightarrow> core # start_threads cores n idx)"

section \<open>Listening sockets\<close>

datatype sock_call =
    SockNew | ReuseAddress | NonBlocking | NoDelay | TcpKeepalive u64 | TcpUserTimeout u64 | SockBind
  | SockListen nat | FromStd | FromListener

text \<open>The calls in order, each with whether its failure ends the function.\<close>

definition listener_plan :: "u64 \<Rightarrow> u64 \<Rightarrow> (sock_call \<times> bool) list" where
  "listener_plan keepalive_secs user_timeout_secs =
    [(SockNew, True), (ReuseAddress, True), (NonBlocking, True), (NoDelay, True)]
    @ (if keepalive_secs > 0 then [(TcpKeepalive keepalive_secs, False)] else [])
    @ (if user_timeout_secs > 0 then [(TcpUserTimeout user_timeout_secs, False)] else [])
    @ [(SockBind, True), (SockListen 1024, True), (FromStd, True), (FromListener, True)]"

fun run_calls :: "(sock_call \<Rightarrow> bool) \<Rightarrow> (sock_call \<times> bool) list \<Rightarrow> bool \<times> sock_call list" where
  "run_calls ok [] = (True, [])"
| "run_calls ok ((c, fatal) # cs) =
    (if \<not> ok c \<and> fatal then (False, [c])
     else (case run_calls ok cs of (res, made) \<Rightarrow> (res, c # made)))"

definition build_incoming :: "(sock_call \<Rightarrow> bool) \<Rightarrow> u64 \<Rightarrow> u64 \<Rightarrow> bool \<times> sock_call list" where
  "build_incoming ok keepalive_secs user_timeout_secs = run_calls ok (listener_plan keepalive_secs user_timeout_secs)"

text \<open>\<open>run_grpc_proxy\<close> and \<open>run_arpc_proxy\<close>: the listener with the configured options, then tonic's server
  with the configured windows, keep-alive and limit.\<close>

record tonic_settings =
  to_connection_window :: u32
  to_stream_window :: u32
  to_adaptive_window :: bool
  to_keepalive_interval_secs :: u64
  to_keepalive_timeout_secs :: u64
  to_concurrency_limit :: usize
  to_max_frame_size :: u32

definition tonic_server :: "(sock_call \<Rightarrow> bool) \<Rightarrow> grpc_config \<Rightarrow> (sock_call list + tonic_settings)" where
  "tonic_server ok cfg =
    (case build_incoming ok (gr_tcp_keepalive_secs cfg) (gr_tcp_user_timeout_secs cfg) of
       (False, calls) \<Rightarrow> Inl calls
     | (True, _) \<Rightarrow> Inr
         \<lparr>to_connection_window = gr_connection_window_bytes cfg, to_stream_window = gr_stream_window_bytes cfg,
          to_adaptive_window = gr_adaptive_window cfg, to_keepalive_interval_secs = gr_keepalive_interval_secs cfg,
          to_keepalive_timeout_secs = gr_keepalive_timeout_secs cfg, to_concurrency_limit = gr_concurrency_limit cfg,
          to_max_frame_size = 32 * 1024\<rparr>)"

definition run_grpc_proxy :: "(sock_call \<Rightarrow> bool) \<Rightarrow> grpc_config \<Rightarrow> (sock_call list + tonic_settings)" where
  "run_grpc_proxy = tonic_server"

definition run_arpc_proxy :: "(sock_call \<Rightarrow> bool) \<Rightarrow> grpc_config \<Rightarrow> (sock_call list + tonic_settings)" where
  "run_arpc_proxy = tonic_server"

section \<open>Signals\<close>

text \<open>
  \<open>setup_sighup_handler\<close> and the reload task: the runtime keeps one pending flag per signal, the
  handler task receives it and sends into a channel of capacity one, the reload task takes the
  message out and then loads the file. The ghost \<open>sh_stale\<close> says that a signal was raised since the
  file was last read.
\<close>

record sighup =
  sh_pending :: bool
  sh_sending :: bool
  sh_queued :: bool
  sh_reloading :: bool
  sh_stale :: bool

definition no_signal :: "sighup \<Rightarrow> bool" where
  "no_signal s \<longleftrightarrow>
     s = \<lparr>sh_pending = False, sh_sending = False, sh_queued = False, sh_reloading = False, sh_stale = False\<rparr>"

inductive handler_step :: "sighup \<Rightarrow> sighup \<Rightarrow> bool" where
  received: "sh_pending s \<Longrightarrow> \<not> sh_sending s \<Longrightarrow> handler_step s (s\<lparr>sh_pending := False, sh_sending := True\<rparr>)"
| sent: "sh_sending s \<Longrightarrow> \<not> sh_queued s \<Longrightarrow> handler_step s (s\<lparr>sh_sending := False, sh_queued := True\<rparr>)"
| taken: "sh_queued s \<Longrightarrow> \<not> sh_reloading s \<Longrightarrow> handler_step s (s\<lparr>sh_queued := False, sh_reloading := True\<rparr>)"
| reloaded: "sh_reloading s \<Longrightarrow> handler_step s (s\<lparr>sh_reloading := False, sh_stale := False\<rparr>)"

inductive sighup_step :: "sighup \<Rightarrow> sighup \<Rightarrow> bool" where
  raised: "sighup_step s (s\<lparr>sh_pending := True, sh_stale := True\<rparr>)"
| handled: "handler_step s t \<Longrightarrow> sighup_step s t"

inductive_cases handler_stepE: "handler_step s t"
inductive_cases sighup_stepE: "sighup_step s t"

section \<open>The process\<close>

record 'l process =
  pr_shared :: "'l dashboard"
  pr_router :: router
  pr_mux :: "mux_task list"
  pr_stats_path :: string

datatype start_error = ExitCode nat | Panicked string

text \<open>The bind addresses are parsed in order; the first that does not parse ends the process.\<close>

definition parse_binds :: "(string \<Rightarrow> 'a option) \<Rightarrow> general_config \<Rightarrow> string + 'a list" where
  "parse_binds parse g =
    fold (\<lambda>(bind, msg) acc.
        case acc of
          Inl e \<Rightarrow> Inl e
        | Inr addrs \<Rightarrow> (case parse bind of Some a \<Rightarrow> Inr (addrs @ [a]) | None \<Rightarrow> Inl msg))
      [(gc_rpc_bind g, ''Invalid rpc_bind''), (gc_ws_bind g, ''Invalid ws_bind''),
       (gc_grpc_bind g, ''Invalid grpc_bind''), (gc_arpc_bind g, ''Invalid arpc_bind''),
       (gc_dashboard_bind g, ''Invalid dashboard_bind'')] (Inr [])"

text \<open>tokio's broadcast channel panics for a capacity of zero or above half of \<open>usize::MAX\<close>.\<close>

definition broadcast_capacity_ok :: "grpc_config \<Rightarrow> bool" where
  "broadcast_capacity_ok cfg \<longleftrightarrow> 0 < gr_broadcast_capacity cfg \<and> unat (gr_broadcast_capacity cfg) \<le> (2 ^ 64 - 1) div 2"

text \<open>Start-up to the point where the servers run; tokio's builder panics when told to use no thread.\<close>

definition main_start ::
    "'l governor \<Rightarrow> stats_codec \<Rightarrow> (string \<Rightarrow> string + config) \<Rightarrow> (string \<Rightarrow> 'a option) \<Rightarrow> usize option
     \<Rightarrow> instant \<Rightarrow> string \<Rightarrow> fs \<Rightarrow> start_error + 'l process" where
  "main_start gov codec from_str parse_addr available now path fs =
    (case load from_str fs path of
       Inl e \<Rightarrow> Inl (ExitCode 1)
     | Inr c \<Rightarrow>
         if worker_threads available (cfg_cpu c) = 0 then Inl (Panicked ''Worker threads cannot be set to 0'')
         else
         let shared = start_dashboard gov codec now path fs c;
             router = new_cluster_router c;
             mux = new_multiplexer router (cfg_grpc c)
         in if \<not> broadcast_capacity_ok (cfg_grpc c) then Inl (Panicked ''broadcast channel capacity'')
            else (case parse_binds parse_addr (cfg_general c) of
               Inl msg \<Rightarrow> Inl (Panicked msg)
             | Inr addrs \<Rightarrow> Inr \<lparr>pr_shared = shared, pr_router = router, pr_mux = mux, pr_stats_path = stats_path c\<rparr>))"

record persist_env =
  pe_show_ip :: "ip_addr \<Rightarrow> string"
  pe_to_json :: "persisted_stats \<Rightarrow> string option"

text \<open>The minute task and the end of \<open>main\<close> both save the statistics; a failure is only logged.\<close>

definition save_stats :: "persist_env \<Rightarrow> write_outcome \<Rightarrow> bool \<Rightarrow> 'l process \<Rightarrow> 'l process" where
  "save_stats env wr rename_ok p =
    (let d = pr_shared p
     in p\<lparr>pr_shared := d\<lparr>db_fs := snd (save_to_file (pe_show_ip env) (pe_to_json env) wr rename_ok (db_fs d)
                                       (pr_stats_path p) (db_stats d))\<rparr>\<rparr>)"

definition reset_tick :: "'l process \<Rightarrow> 'l process" where
  "reset_tick p = p\<lparr>pr_shared := (pr_shared p)\<lparr>db_stats := reset_rolling_counters (db_stats (pr_shared p))\<rparr>\<rparr>"

text \<open>The life of the process apart from the proxies' traffic: its own tasks, the administrators' requests
  (keys drawn are new) and other programs writing files.\<close>

inductive main_trans :: "'l governor \<Rightarrow> (string \<Rightarrow> string + config) \<Rightarrow> 'l process \<Rightarrow> 'l process \<Rightarrow> bool"
  for gov from_str where
  reset: "main_trans gov from_str p (reset_tick p)"
| saved: "main_trans gov from_str p (save_stats env wr rename_ok p)"
| sighup: "main_trans gov from_str p (p\<lparr>pr_shared := sighup_reload gov from_str (pr_shared p)\<rparr>)"
| admin: "de_gov e = gov \<Longrightarrow>
    generate_api_key (de_random e) \<notin> ak_key ` set (cfg_api_keys (db_config (pr_shared p))) \<Longrightarrow>
    main_trans gov from_str p (p\<lparr>pr_shared := snd (dispatch e ax now now_ms req (pr_shared p))\<rparr>)"
| edited: "main_trans gov from_str p (p\<lparr>pr_shared := (pr_shared p)\<lparr>db_fs := fs\<rparr>\<rparr>)"

inductive_cases main_transE: "main_trans gov from_str p q"

definition started ::
    "'l governor \<Rightarrow> stats_codec \<Rightarrow> (string \<Rightarrow> string + config) \<Rightarrow> (string \<Rightarrow> 'a option) \<Rightarrow> 'l process \<Rightarrow> bool" where
  "started gov codec from_str parse_addr p \<longleftrightarrow>
     (\<exists>available now path fs. main_start gov codec from_str parse_addr available now path fs = Inr p)"

section \<open>Servers\<close>

text \<open>
  The accept loops of the two hand-written servers (\<open>HttpRpcProxy::run\<close>, \<open>WebSocketProxy::run\<close>): a
  connection is served by a task of its own, an error of \<open>accept\<close> ends the loop. \<open>main\<close> waits in one
  \<open>select!\<close> for the first of the five servers to end or for a signal, and then ends.
\<close>

datatype server = HttpServer | WsServer | GrpcServer | ArpcServer | DashboardServer

fun accept_loop :: "(string + 'a) list \<Rightarrow> 'a list \<times> string option" where
  "accept_loop [] = ([], None)"
| "accept_loop (Inr peer # rest) = (case accept_loop rest of (served, ended) \<Rightarrow> (peer # served, ended))"
| "accept_loop (Inl e # rest) = ([], Some e)"

definition run_server :: "string option \<Rightarrow> (string + 'a) list \<Rightarrow> 'a list \<times> string option" where
  "run_server bind_error accepts =
    (case bind_error of Some e \<Rightarrow> ([], Some e) | None \<Rightarrow> accept_loop accepts)"

text \<open>The signals the process has handlers for; the first two complete \<open>shutdown_signal\<close>.\<close>

datatype os_signal = SigInt | SigTerm | SigHup

fun shutdown_signal :: "os_signal \<Rightarrow> bool" where
  "shutdown_signal SigInt = True"
| "shutdown_signal SigTerm = True"
| "shutdown_signal SigHup = False"

datatype 'a main_event = Accept server "string + 'a" | Ended server "string option" | Signal os_signal

datatype main_exit = ServerStopped server "string option" | SignalStop

text \<open>The other three servers accept inside axum and tonic, whose loops report only their end.\<close>

fun main_select :: "'a main_event list \<Rightarrow> (server \<times> 'a) list \<times> main_exit option" where
  "main_select [] = ([], None)"
| "main_select (Accept s (Inr peer) # es) = (case main_select es of (served, ended) \<Rightarrow> ((s, peer) # served, ended))"
| "main_select (Accept s (Inl e) # es) =
    (if s = HttpServer \<or> s = WsServer then ([], Some (ServerStopped s (Some e))) else main_select es)"
| "main_select (Ended s e # es) = ([], Some (ServerStopped s e))"
| "main_select (Signal sg # es) = (if shutdown_signal sg then ([], Some SignalStop) else main_select es)"

text \<open>The end of \<open>main\<close>: whatever ended the wait, the statistics are saved.\<close>

definition main_finish ::
    "persist_env \<Rightarrow> write_outcome \<Rightarrow> bool \<Rightarrow> 'a main_event list \<Rightarrow> 'l process \<Rightarrow> 'l process" where
  "main_finish env wr rename_ok es p =
    (case snd (main_select es) of None \<Rightarrow> p | Some _ \<Rightarrow> save_stats env wr rename_ok p)"

section \<open>Lemmas\<close>

subsection \<open>Threads and sockets\<close>

lemma start_threads_nth:
  assumes "cores \<noteq> []" "unat idx + n < 2 ^ 64"
  shows "start_threads cores n idx = map (\<lambda>i. Some (cores ! ((unat idx + i) mod length cores))) [0..<n]"
  using assms(2)
proof (induction n arbitrary: idx)
  case (Suc n)
  have "unat (idx + 1) = Suc (unat idx)"
    using Suc.prems by (simp add: unat_word_ariths take_bit_eq_mod)
  with Suc assms(1) show ?case
    by (simp add: on_thread_start_def upt_conv_Cons map_Suc_upt [symmetric] del: upt_Suc)
qed simp

text \<open>Without an explicit thread count the workers are pinned one to each configured core.\<close>

lemma one_worker_per_core:
  assumes "cpu_worker_threads cpu = None" "cpu_cores cpu \<noteq> []" "length (cpu_cores cpu) < 2 ^ 64"
  shows "start_threads (cpu_cores cpu) (unat (worker_threads available cpu)) 0 = map Some (cpu_cores cpu)"
proof -
  have n: "unat (of_nat (length (cpu_cores cpu)) :: usize) = length (cpu_cores cpu)"
    using assms(3) by (simp add: unat_of_nat)
  moreover have "1 \<le> length (cpu_cores cpu)" using assms(2) by (simp add: Suc_le_eq)
  ultimately have "(1 :: usize) \<le> of_nat (length (cpu_cores cpu))"
    by (simp add: word_le_nat_alt)
  then have "unat (worker_threads available cpu) = length (cpu_cores cpu)"
    using assms(1,2) n by (simp add: worker_threads_def max_def)
  with assms show ?thesis
    by (simp add: start_threads_nth) (intro nth_equalityI, simp_all)
qed

lemma run_calls_result: "fst (run_calls ok cs) \<longleftrightarrow> (\<forall>(c, fatal) \<in> set cs. fatal \<longrightarrow> ok c)"
  by (induction ok cs rule: run_calls.induct) (auto split: prod.splits)

lemma run_calls_made: "fst (run_calls ok cs) \<Longrightarrow> snd (run_calls ok cs) = map fst cs"
  by (induction ok cs rule: run_calls.induct) (auto split: prod.splits if_splits)

lemma run_calls_stop: "\<not> fst (run_calls ok cs) \<Longrightarrow>
    \<exists>pre c. prefix (pre @ [c]) (map fst cs) \<and> snd (run_calls ok cs) = pre @ [c] \<and> \<not> ok c"
proof (induction ok cs rule: run_calls.induct)
  case (2 ok c fatal cs)
  show ?case
  proof (cases "\<not> ok c \<and> fatal")
    case False
    with 2 obtain pre d where "prefix (pre @ [d]) (map fst cs)" "snd (run_calls ok cs) = pre @ [d]" "\<not> ok d"
      by (auto split: prod.splits)
    with False show ?thesis by (intro exI [of _ "c # pre"] exI [of _ d]) (auto split: prod.splits)
  qed (intro exI [of _ "[]"] exI [of _ c], simp)
qed simp

text \<open>A listening socket results exactly when every call but the two tuning options succeeds; then the
  options were set before the socket was bound. Otherwise the first failing mandatory call was the last made.\<close>

lemma build_incoming_spec:
  "(fst (build_incoming ok ka ut) \<longleftrightarrow>
      (\<forall>c \<in> {SockNew, ReuseAddress, NonBlocking, NoDelay, SockBind, SockListen 1024, FromStd, FromListener}. ok c))
   \<and> (if fst (build_incoming ok ka ut) then snd (build_incoming ok ka ut) = map fst (listener_plan ka ut)
      else \<not> ok (last (snd (build_incoming ok ka ut))) \<and> prefix (snd (build_incoming ok ka ut)) (map fst (listener_plan ka ut)))"
proof -
  have "fst (build_incoming ok ka ut) \<longleftrightarrow>
      (\<forall>c \<in> {SockNew, ReuseAddress, NonBlocking, NoDelay, SockBind, SockListen 1024, FromStd, FromListener}. ok c)"
    by (auto simp: build_incoming_def run_calls_result listener_plan_def)
  then show ?thesis
    using run_calls_made [of ok "listener_plan ka ut"] run_calls_stop [of ok "listener_plan ka ut"]
    by (auto simp: build_incoming_def simp del: fst_conv)
qed

subsection \<open>Servers\<close>

fun ends_process :: "'a main_event \<Rightarrow> bool" where
  "ends_process (Accept s (Inr peer)) = False"
| "ends_process (Accept s (Inl e)) = (s = HttpServer \<or> s = WsServer)"
| "ends_process (Ended s e) = True"
| "ends_process (Signal sg) = shutdown_signal sg"

fun accepted :: "'a main_event \<Rightarrow> (server \<times> 'a) list" where
  "accepted (Accept s (Inr peer)) = [(s, peer)]"
| "accepted _ = []"

lemma accept_loop_spec:
  "accept_loop xs = (map projr (takeWhile (\<lambda>x. \<not> isl x) xs), (case dropWhile (\<lambda>x. \<not> isl x) xs of [] \<Rightarrow> None | x # _ \<Rightarrow> Some (projl x)))"
  by (induction xs rule: accept_loop.induct) auto

text \<open>The process serves exactly the connections accepted before the first event that ends it, and one
  failed \<open>accept\<close> of the two hand-written servers is such an event.\<close>

lemma main_select_spec:
  "fst (main_select es) = concat (map accepted (takeWhile (\<lambda>ev. \<not> ends_process ev) es))"
  "snd (main_select es) = None \<longleftrightarrow> (\<forall>ev \<in> set es. \<not> ends_process ev)"
  by (induction es rule: main_select.induct) (auto split: prod.splits)

lemma accept_error_ends_process:
  assumes "Accept s (Inl e) \<in> set es" "s = HttpServer \<or> s = WsServer"
  shows "snd (main_select es) \<noteq> None"
proof -
  have "ends_process (Accept s (Inl e))" using assms(2) by simp
  with assms(1) show ?thesis using main_select_spec(2) [of es] by blast
qed

subsection \<open>Signals\<close>

definition signal_inv :: "sighup \<Rightarrow> bool" where
  "signal_inv s \<longleftrightarrow> (sh_stale s \<longrightarrow> sh_pending s \<or> sh_sending s \<or> sh_queued s \<or> sh_reloading s)"

definition signal_work :: "sighup \<Rightarrow> nat" where
  "signal_work s = (if sh_pending s then 4 else 0) + (if sh_sending s then 3 else 0)
     + (if sh_queued s then 2 else 0) + (if sh_reloading s then 1 else 0)"

interpretation signals: step_invariant no_signal sighup_step signal_inv
  by unfold_locales (auto simp: no_signal_def signal_inv_def elim!: sighup_stepE handler_stepE)

lemma handler_inv: "handler_step s t \<Longrightarrow> signal_inv s \<Longrightarrow> signal_inv t"
  using signals.inv_step handled by blast

lemma handler_work: "handler_step s t \<Longrightarrow> signal_work t < signal_work s"
  by (auto simp: signal_work_def elim!: handler_stepE)

lemma handler_run_work: "(handler_step ^^ n) s t \<Longrightarrow> n + signal_work t \<le> signal_work s"
  by (induction n arbitrary: t) (auto dest!: handler_work, fastforce dest: handler_work)

lemma handler_run_inv: "(handler_step ^^ n) s t \<Longrightarrow> signal_inv s \<Longrightarrow> signal_inv t"
  by (induction n arbitrary: t) (auto intro: handler_inv)

lemma handler_progress: "signal_inv s \<Longrightarrow> sh_stale s \<Longrightarrow> \<exists>t. handler_step s t"
  unfolding signal_inv_def by (metis handler_step.intros)

subsection \<open>The process\<close>

lemma main_start_Inr:
  assumes "main_start gov codec from_str parse_addr available now path fs = Inr p"
  obtains c where "load from_str fs path = Inr c" "worker_threads available (cfg_cpu c) \<noteq> 0"
    "pr_shared p = start_dashboard gov codec now path fs c" "pr_router p = new_cluster_router c"
    "pr_mux p = new_multiplexer (new_cluster_router c) (cfg_grpc c)" "pr_stats_path p = stats_path c"
  using assms by (auto simp: main_start_def Let_def split: sum.splits if_splits)

lemma coherent_start:
  "distinct (map ak_key (cfg_api_keys c)) \<Longrightarrow> coherent (start_dashboard gov codec now path fs c)"
  by (simp add: coherent_def start_dashboard_def new_whitelist_def)

lemma load_from: "load from_str fs path = Inr c \<Longrightarrow> \<exists>s c0. from_str s = Inr c0 \<and> cfg_api_keys c = cfg_api_keys c0"
  by (auto simp: load_def Let_def split: option.splits sum.splits if_splits) blast+

text \<open>No configuration file lists a key twice.\<close>

definition unique_keys :: "(string \<Rightarrow> string + config) \<Rightarrow> bool" where
  "unique_keys from_str \<longleftrightarrow> (\<forall>s c. from_str s = Inr c \<longrightarrow> distinct (map ak_key (cfg_api_keys c)))"

definition life_ok :: "'l process \<Rightarrow> bool" where
  "life_ok p \<longleftrightarrow> coherent (pr_shared p) \<and> cfg_nodes (db_config (pr_shared p)) \<noteq> []
     \<and> cfg_upstream (db_config (pr_shared p)) = None"

lemma coherent_frame:
  "coherent (d\<lparr>db_stats := st\<rparr>) = coherent d" "coherent (d\<lparr>db_limiter := lims\<rparr>) = coherent d"
  "coherent (d\<lparr>db_fs := fs\<rparr>) = coherent d"
  by (simp_all add: coherent_def)

lemma coherent_reload:
  assumes "coherent d" "unique_keys from_str"
  shows "coherent (sighup_reload gov from_str d)"
proof (cases "load from_str (db_fs d) (db_path d)")
  case (Inr c)
  from load_from [OF Inr] assms(2) have "distinct (map ak_key (cfg_api_keys c))"
    unfolding unique_keys_def by metis
  with Inr show ?thesis
    by (simp add: sighup_reload_def coherent_def update_whitelist_def reload_keys_eq Let_def)
qed (use assms in \<open>simp add: sighup_reload_def\<close>)

lemma reload_nodes:
  assumes "cfg_nodes (db_config d) \<noteq> [] \<and> cfg_upstream (db_config d) = None"
  shows "cfg_nodes (db_config (sighup_reload gov from_str d)) \<noteq> []
    \<and> cfg_upstream (db_config (sighup_reload gov from_str d)) = None"
  using assms load_ok [of from_str "db_fs d" "db_path d"]
  by (simp add: sighup_reload_def Let_def split: sum.splits)

lemma life_start:
  assumes "started gov codec from_str parse_addr p" "unique_keys from_str"
  shows "life_ok p"
proof -
  from assms(1) obtain available now path fs
    where "main_start gov codec from_str parse_addr available now path fs = Inr p" by (auto simp: started_def)
  then obtain c where c: "load from_str fs path = Inr c" "pr_shared p = start_dashboard gov codec now path fs c"
    by (rule main_start_Inr)
  have "db_config (pr_shared p) = c" using c(2) by (simp add: start_dashboard_def)
  with c load_from [OF c(1)] load_ok [OF c(1)] assms(2) show ?thesis
    by (auto simp: life_ok_def coherent_start unique_keys_def)
qed

lemma life_step:
  assumes "main_trans gov from_str p q" "unique_keys from_str" "life_ok p"
  shows "life_ok q"
  using assms
  by (cases rule: main_transE)
    (auto simp: life_ok_def reset_tick_def save_stats_def Let_def coherent_frame coherent_reload reload_nodes
      coherent_dispatch dispatch_nodes)

interpretation life: step_invariant "started gov codec from_str parse_addr" "main_trans gov from_str"
    "\<lambda>p. unique_keys from_str \<longrightarrow> life_ok p"
  for gov codec from_str parse_addr
  by unfold_locales (auto intro: life_start life_step)

lemma parse_binds_ok:
  "(\<exists>addrs. parse_binds parse g = Inr addrs) \<longleftrightarrow>
     (\<forall>b \<in> {gc_rpc_bind g, gc_ws_bind g, gc_grpc_bind g, gc_arpc_bind g, gc_dashboard_bind g}. parse b \<noteq> None)"
  by (auto simp: parse_binds_def split: option.splits)

lemma main_start_ok:
  "(\<exists>p. main_start gov codec from_str parse_addr available now path fs = Inr p) \<longleftrightarrow>
     (\<exists>c. load from_str fs path = Inr c \<and> worker_threads available (cfg_cpu c) \<noteq> 0
        \<and> broadcast_capacity_ok (cfg_grpc c) \<and> (\<exists>addrs. parse_binds parse_addr (cfg_general c) = Inr addrs))"
  by (auto simp: main_start_def Let_def split: sum.splits if_splits)

lemma new_health_ok [simp]: "is_healthy (new_health i)" "nh_grpc_healthy (new_health i)"
  by (simp_all add: new_health_def is_healthy_def get_status_def from_u8_def)

lemma new_nodes_healthy: "n \<in> set (new_nodes c) \<Longrightarrow> node_healthy n \<and> nh_grpc_healthy (ne_health n)"
  by (auto simp: new_nodes_def)

lemma new_nodes_ids: "map (\<lambda>n. nc_id (ne_config n)) (new_nodes c) = map nc_id (cfg_nodes c)"
  by (simp add: new_nodes_def comp_def)

lemma started_router:
  assumes "main_start gov codec from_str parse_addr available now path fs = Inr p"
  obtains c where "load from_str fs path = Inr c" "rt_nodes (pr_router p) = new_nodes c"
    "rt_send_tx_node_ids (pr_router p) = get_send_tx_node_ids c"
    "rt_grpc_node_ids (pr_router p) = get_grpc_eligible_node_ids c" "new_nodes c \<noteq> []"
proof -
  from assms obtain c where c: "load from_str fs path = Inr c" "pr_router p = new_cluster_router c"
    by (rule main_start_Inr)
  with load_ok [OF c(1)] show ?thesis
    by (intro that [of c]) (simp_all add: new_cluster_router_def new_router_def new_nodes_def)
qed

lemma started_serves:
  assumes "main_start gov codec from_str parse_addr available now path fs = Inr p"
  shows "\<exists>c. load from_str fs path = Inr c
      \<and> ((\<exists>n \<in> set (rt_nodes (pr_router p)). \<exists>resp. forward_to_rpc cl body n = Inr resp) \<longrightarrow>
          (\<exists>resp. fst (forward_read_rpc cl (pr_router p) body) = Inr resp))
      \<and> pick_ws_node (pr_router p) \<noteq> None
      \<and> map ne_config (fan_out_targets (pr_router p))
          = filter (\<lambda>nc. nc_id nc \<in> set (get_send_tx_node_ids c)) (cfg_nodes c)
      \<and> (rc_grpc_regions (cfg_routing c) = [] \<longrightarrow> pick_grpc_node (pr_router p) \<noteq> None)"
proof -
  from assms obtain c where c: "load from_str fs path = Inr c" "rt_nodes (pr_router p) = new_nodes c"
    "rt_send_tx_node_ids (pr_router p) = get_send_tx_node_ids c"
    "rt_grpc_node_ids (pr_router p) = get_grpc_eligible_node_ids c" "new_nodes c \<noteq> []"
    by (rule started_router)
  have all: "filter node_healthy (rt_nodes (pr_router p)) = new_nodes c"
    using c(2) new_nodes_healthy [of _ c] by (simp add: filter_id_conv)
  have read: "\<exists>resp. fst (forward_read_rpc cl (pr_router p) body) = Inr resp"
    if "\<exists>n \<in> set (rt_nodes (pr_router p)). \<exists>resp. forward_to_rpc cl body n = Inr resp"
    using that read_policy.answers_if_any_answers [of _ "pr_router p" cl body] all c(2) by fastforce
  have ws: "pick_ws_node (pr_router p) \<noteq> None"
    using all c(5) by (simp add: pick_ws_node_def pick_read_node_def)
  have tx: "map ne_config (fan_out_targets (pr_router p))
      = filter (\<lambda>nc. nc_id nc \<in> set (get_send_tx_node_ids c)) (cfg_nodes c)"
    using c(2,3) by (simp add: fan_out_targets_def new_nodes_def filter_map comp_def)
  have grpc: "pick_grpc_node (pr_router p) \<noteq> None" if "rc_grpc_regions (cfg_routing c) = []"
    using that c(2,4,5) new_nodes_healthy [of _ c] new_nodes_ids [of c, THEN arg_cong [of _ _ set]]
    by (simp add: grpc_pick.pick_None_iff get_grpc_eligible_node_ids_def) (metis image_eqI list.set_intros(1) neq_Nil_conv)
  from c(1) read ws tx grpc show ?thesis by blast
qed

section \<open>Properties\<close>

text \<open>Property C34. Start-up succeeds exactly when the configuration loads, asks for at least one worker thread and a
  legal broadcast capacity and its five addresses parse; the process then serves at once: a read is answered whenever some configured
  node answers it, transactions go to every configured target, a WebSocket node can be picked, and
  without a region restriction a gRPC node too.\<close>

theorem startup_serves:
  "((\<exists>p. main_start gov codec from_str parse_addr available now path fs = Inr p) \<longleftrightarrow>
      (\<exists>c. load from_str fs path = Inr c \<and> worker_threads available (cfg_cpu c) \<noteq> 0
        \<and> 0 < gr_broadcast_capacity (cfg_grpc c) \<and> unat (gr_broadcast_capacity (cfg_grpc c)) \<le> (2 ^ 64 - 1) div 2
        \<and> (\<forall>b \<in> {gc_rpc_bind (cfg_general c), gc_ws_bind (cfg_general c), gc_grpc_bind (cfg_general c),
               gc_arpc_bind (cfg_general c), gc_dashboard_bind (cfg_general c)}. parse_addr b \<noteq> None)))
   \<and> (\<forall>p. main_start gov codec from_str parse_addr available now path fs = Inr p \<longrightarrow>
      (\<exists>c. load from_str fs path = Inr c
        \<and> ((\<exists>n \<in> set (rt_nodes (pr_router p)). \<exists>resp. forward_to_rpc cl body n = Inr resp) \<longrightarrow>
            (\<exists>resp. fst (forward_read_rpc cl (pr_router p) body) = Inr resp))
        \<and> pick_ws_node (pr_router p) \<noteq> None
        \<and> map ne_config (fan_out_targets (pr_router p))
            = filter (\<lambda>nc. nc_id nc \<in> set (get_send_tx_node_ids c)) (cfg_nodes c)
        \<and> (rc_grpc_regions (cfg_routing c) = [] \<longrightarrow> pick_grpc_node (pr_router p) \<noteq> None)))"
  unfolding main_start_ok parse_binds_ok broadcast_capacity_ok_def conj_assoc using started_serves by blast

definition example_codec :: stats_codec where
  "example_codec =
    \<lparr>sd_from_json = (\<lambda>j. if j = ''j'' then Some (persist (\<lambda>_. ''i'') (record_rpc 5 (V4 9) False (new_stats 0))) else None),
     sd_parse_ip = (\<lambda>s. if s = ''i'' then Some (V4 9) else None)\<rparr>"

abbreviation example_start :: "fs \<Rightarrow> start_error + nat process" where
  "example_start \<equiv> main_start example_governor example_codec sample_from_toml Some (Some 8) 0 ''/c.toml''"

definition example_process :: "nat process" where
  "example_process =
    \<lparr>pr_shared = start_dashboard example_governor example_codec 0 ''/c.toml'' [''/c.toml'' \<mapsto> ''sample''] example_config,
     pr_router = new_cluster_router example_config,
     pr_mux = new_multiplexer (new_cluster_router example_config) (cfg_grpc example_config),
     pr_stats_path = stats_path example_config\<rparr>"

lemma example_start_eq:
  "fs ''/c.toml'' = Some ''sample'' \<Longrightarrow>
   example_start fs = Inr (example_process\<lparr>pr_shared :=
     start_dashboard example_governor example_codec 0 ''/c.toml'' fs example_config\<rparr>)"
  by (simp add: main_start_def sample_load example_process_def parse_binds_def Let_def)
    (simp add: example_config_def worker_threads_def num_cpus_def broadcast_capacity_ok_def default_grpc_config_def
      default_grpc_broadcast_capacity_def)

lemma example_started: "example_start [''/c.toml'' \<mapsto> ''sample''] = Inr example_process"
  by (simp add: example_start_eq) (simp add: example_process_def)

theorem startup_serves_witness:
  "example_start [''/c.toml'' \<mapsto> ''sample''] = Inr example_process \<and> pick_grpc_node (pr_router example_process) \<noteq> None"
proof -
  have "load sample_from_toml [''/c.toml'' \<mapsto> ''sample''] ''/c.toml'' = Inr example_config"
    by (simp add: sample_load)
  moreover have "rc_grpc_regions (cfg_routing example_config) = []"
    by (simp add: example_config_def default_routing_config_def)
  ultimately show ?thesis
    using startup_serves [of example_governor example_codec sample_from_toml Some "Some 8" 0 "''/c.toml''"
        "[''/c.toml'' \<mapsto> ''sample'']"] example_started by auto
qed


definition example_persist :: persist_env where
  "example_persist =
    \<lparr>pe_show_ip = (\<lambda>_. ''i''),
     pe_to_json = (\<lambda>x. if x = persist (\<lambda>_. ''i'') (record_rpc 5 (V4 9) False (new_stats 0)) then Some ''j'' else None)\<rparr>"

definition example_running :: "nat process" where
  "example_running = example_process\<lparr>pr_shared :=
     (pr_shared example_process)\<lparr>db_stats := record_rpc 5 (V4 9) False (new_stats 0)\<rparr>\<rparr>"

lemma example_stats:
  "map fst (st_per_ip (record_rpc 5 (V4 9) False (new_stats 0))) = [V4 9]"
  "st_global_total_requests (record_rpc 5 (V4 9) False (new_stats 0)) = 1"
  by (simp_all add: record_rpc_def modify_ip_def new_stats_def get_or_create_def Let_def)

lemma example_codecs:
  "pe_to_json example_persist (persist (pe_show_ip example_persist) (record_rpc 5 (V4 9) False (new_stats 0))) \<noteq> None"
  "\<forall>x j. pe_to_json example_persist x = Some j \<longrightarrow> sd_from_json example_codec j = Some x"
  "\<forall>ip \<in> fst ` set (st_per_ip (record_rpc 5 (V4 9) False (new_stats 0))).
     sd_parse_ip example_codec (pe_show_ip example_persist ip) = Some ip"
  using example_stats(1) [THEN arg_cong [of _ _ set]] by (simp_all add: example_persist_def example_codec_def)

lemma example_saved:
  "db_fs (pr_shared (save_stats example_persist Written True example_running)) ''/c.toml'' = Some ''sample''"
  by (simp add: save_stats_def save_to_file_def example_persist_def example_running_def write_then_rename_def Let_def)
    (simp add: example_process_def stats_path_def path_join_def start_dashboard_def
      example_config_def default_data_dir_def with_extension_def file_stem_def Let_def)


text \<open>Property C38. No hang-up signal is lost: however signals and the two tasks interleave, the tasks come to rest after
  at most ten steps, and then the configuration file has been read since the last signal.\<close>

theorem sighup_not_lost:
  assumes "reach no_signal sighup_step s" and "(handler_step ^^ n) s t"
  shows "n \<le> 10 \<and> ((\<nexists>u. handler_step t u) \<longrightarrow> \<not> sh_stale t)"
  using handler_run_work [OF assms(2)] handler_run_inv [OF assms(2) signals.inv_reach [OF assms(1)]]
    handler_progress [of t]
  by (auto simp: signal_work_def split: if_splits)

definition example_idle :: sighup where
  "example_idle =
    \<lparr>sh_pending = False, sh_sending = False, sh_queued = False, sh_reloading = False, sh_stale = False\<rparr>"

definition example_raised :: sighup where
  "example_raised = example_idle\<lparr>sh_pending := True, sh_stale := True\<rparr>"

lemma example_raised_reach: "reach no_signal sighup_step example_raised"
proof -
  have "reach no_signal sighup_step example_idle"
    by (rule reach.start) (simp add: no_signal_def example_idle_def)
  from reach.step [OF this raised] show ?thesis by (simp add: example_raised_def)
qed

lemma example_handled: "(handler_step ^^ 4) example_raised example_idle"
proof -
  let ?a = "\<lambda>p s q r st. \<lparr>sh_pending = p, sh_sending = s, sh_queued = q, sh_reloading = r, sh_stale = st\<rparr>"
  have "handler_step (?a True False False False True) (?a False True False False True)"
    using received [of "?a True False False False True"] by simp
  moreover have "handler_step (?a False True False False True) (?a False False True False True)"
    using sent [of "?a False True False False True"] by simp
  moreover have "handler_step (?a False False True False True) (?a False False False True True)"
    using taken [of "?a False False True False True"] by simp
  moreover have "handler_step (?a False False False True True) (?a False False False False False)"
    using reloaded [of "?a False False False True True"] by simp
  ultimately show ?thesis
    by (auto simp: example_raised_def example_idle_def numeral_eq_Suc relcompp_apply)
qed

theorem sighup_not_lost_witness: "sh_stale example_raised \<and> \<not> sh_stale example_idle"
proof -
  have "\<nexists>u. handler_step example_idle u" by (auto simp: example_idle_def elim: handler_stepE)
  with sighup_not_lost [OF example_raised_reach example_handled] show ?thesis
    by (simp add: example_raised_def)
qed

end
