(* ===== verification/Forwarder.thy ===== *)
theory Forwarder
  imports Mux
begin

text \<open>
  The tasks that copy a gRPC stream into a bounded channel: both directions of the aRPC streams
  (\<open>src/src/proxy/grpc_arpc.rs\<close>) and the client's requests of a direct Yellowstone stream
  (\<open>src/src/proxy/grpc_yellowstone.rs\<close>), as the interleaving of the forwarder with the receiver of
  its channel and the canceller.
\<close>

section \<open>Forwarders\<close>

text \<open>
  A forwarder reads a stream into a bounded channel. \<open>fd_source\<close> is what the stream still yields
  before it ends, \<open>fd_queue\<close> the channel, \<open>fd_received\<close> what its receiver took out. One poll of a
  biased \<open>select!\<close> is one step: cancellation is seen first, then the dropped receiver. The
  response direction (\<open>pass_errors\<close>) sends a stream error on, waiting for room without looking at
  the token; the request direction just stops.
\<close>

definition request_capacity :: nat where
  "request_capacity = 256"

definition response_capacity :: nat where
  "response_capacity = 2048"

definition direct_request_capacity :: nat where
  "direct_request_capacity = 256"

datatype stop_reason = StoppedCancelled | StoppedClosed | StoppedError | StoppedEnd

datatype 'a fwd_phase = Receiving | Reserving 'a | SendingError grpc_status | Stopped stop_reason

record 'a forwarder =
  fd_source :: "(grpc_status + 'a) list"
  fd_phase :: "'a fwd_phase"
  fd_queue :: "(grpc_status + 'a) list"
  fd_received :: "(grpc_status + 'a) list"
  fd_open :: bool \<comment> \<open>the receiver of the channel is alive\<close>
  fd_cancelled :: bool

definition new_forwarder :: "(grpc_status + 'a) list \<Rightarrow> 'a forwarder" where
  "new_forwarder items =
    \<lparr>fd_source = items, fd_phase = Receiving, fd_queue = [], fd_received = [], fd_open = True, fd_cancelled = False\<rparr>"

definition interruptible :: "'a fwd_phase \<Rightarrow> bool" where
  "interruptible p = (case p of Receiving \<Rightarrow> True | Reserving m \<Rightarrow> True | SendingError e \<Rightarrow> False | Stopped r \<Rightarrow> False)"

inductive forward_step :: "nat \<Rightarrow> bool \<Rightarrow> 'a forwarder \<Rightarrow> 'a forwarder \<Rightarrow> bool" for capacity pass_errors f where
  see_cancel: "interruptible (fd_phase f) \<Longrightarrow> fd_cancelled f \<Longrightarrow>
    forward_step capacity pass_errors f (f\<lparr>fd_phase := Stopped StoppedCancelled\<rparr>)"
| see_closed: "interruptible (fd_phase f) \<Longrightarrow> \<not> fd_cancelled f \<Longrightarrow> \<not> fd_open f \<Longrightarrow>
    forward_step capacity pass_errors f (f\<lparr>fd_phase := Stopped StoppedClosed\<rparr>)"
| take_item: "fd_phase f = Receiving \<Longrightarrow> \<not> fd_cancelled f \<Longrightarrow> fd_open f \<Longrightarrow> fd_source f = Inr m # items \<Longrightarrow>
    forward_step capacity pass_errors f (f\<lparr>fd_source := items, fd_phase := Reserving m\<rparr>)"
| take_error: "fd_phase f = Receiving \<Longrightarrow> \<not> fd_cancelled f \<Longrightarrow> fd_open f \<Longrightarrow> fd_source f = Inl e # items \<Longrightarrow>
    forward_step capacity pass_errors f
      (f\<lparr>fd_source := items, fd_phase := (if pass_errors then SendingError e else Stopped StoppedError)\<rparr>)"
| source_ends: "fd_phase f = Receiving \<Longrightarrow> \<not> fd_cancelled f \<Longrightarrow> fd_open f \<Longrightarrow> fd_source f = [] \<Longrightarrow>
    forward_step capacity pass_errors f (f\<lparr>fd_phase := Stopped StoppedEnd\<rparr>)"
| send_item: "fd_phase f = Reserving m \<Longrightarrow> \<not> fd_cancelled f \<Longrightarrow> fd_open f \<Longrightarrow> length (fd_queue f) < capacity \<Longrightarrow>
    forward_step capacity pass_errors f (f\<lparr>fd_queue := fd_queue f @ [Inr m], fd_phase := Receiving\<rparr>)"
| send_error: "fd_phase f = SendingError e \<Longrightarrow> fd_open f \<Longrightarrow> length (fd_queue f) < capacity \<Longrightarrow>
    forward_step capacity pass_errors f (f\<lparr>fd_queue := fd_queue f @ [Inl e], fd_phase := Stopped StoppedError\<rparr>)"
| send_error_closed: "fd_phase f = SendingError e \<Longrightarrow> \<not> fd_open f \<Longrightarrow>
    forward_step capacity pass_errors f (f\<lparr>fd_phase := Stopped StoppedError\<rparr>)"
| receive: "fd_open f \<Longrightarrow> fd_queue f = x # q \<Longrightarrow>
    forward_step capacity pass_errors f (f\<lparr>fd_queue := q, fd_received := fd_received f @ [x]\<rparr>)"
| drop_receiver: "forward_step capacity pass_errors f (f\<lparr>fd_open := False\<rparr>)"
| cancel: "forward_step capacity pass_errors f (f\<lparr>fd_cancelled := True\<rparr>)"

text \<open>The three kinds of forwarder the services spawn.\<close>

abbreviation arpc_request_step :: "'a forwarder \<Rightarrow> 'a forwarder \<Rightarrow> bool" where
  "arpc_request_step \<equiv> forward_step request_capacity False"

abbreviation arpc_response_step :: "'a forwarder \<Rightarrow> 'a forwarder \<Rightarrow> bool" where
  "arpc_response_step \<equiv> forward_step response_capacity True"

abbreviation direct_request_step :: "'a forwarder \<Rightarrow> 'a forwarder \<Rightarrow> bool" where
  "direct_request_step \<equiv> forward_step direct_request_capacity False"

inductive_cases forward_stepE: "forward_step capacity pass_errors f g"

section \<open>Lemmas\<close>

text \<open>What a stream should deliver: everything up to the first error, with it if errors are passed on.\<close>

fun relayed :: "bool \<Rightarrow> (grpc_status + 'a) list \<Rightarrow> (grpc_status + 'a) list" where
  "relayed pass_errors [] = []"
| "relayed pass_errors (Inr m # items) = Inr m # relayed pass_errors items"
| "relayed pass_errors (Inl e # items) = (if pass_errors then [Inl e] else [])"

fun in_hand :: "bool \<Rightarrow> 'a forwarder \<Rightarrow> (grpc_status + 'a) list" where
  "in_hand pass_errors f =
    (case fd_phase f of
       Receiving \<Rightarrow> relayed pass_errors (fd_source f)
     | Reserving m \<Rightarrow> Inr m # relayed pass_errors (fd_source f)
     | SendingError e \<Rightarrow> [Inl e]
     | Stopped r \<Rightarrow> [])"

definition undisturbed :: "'a forwarder \<Rightarrow> bool" where
  "undisturbed f \<longleftrightarrow> fd_open f \<and> \<not> fd_cancelled f"

text \<open>The invariant: the channel respects its capacity; what the receiver has, what is queued and what
  is still in hand make up the whole delivery, of which an interrupted forwarder may lose the end.\<close>

definition delivers :: "nat \<Rightarrow> bool \<Rightarrow> (grpc_status + 'a) list \<Rightarrow> 'a forwarder \<Rightarrow> bool" where
  "delivers capacity pass_errors items f \<longleftrightarrow>
     length (fd_queue f) \<le> capacity
     \<and> prefix (fd_received f @ fd_queue f @ in_hand pass_errors f) (relayed pass_errors items)
     \<and> (undisturbed f \<longrightarrow> fd_received f @ fd_queue f @ in_hand pass_errors f = relayed pass_errors items)"

lemma prefix_front: "prefix (a @ b @ c) d \<Longrightarrow> prefix (a @ b) d"
  using append_prefixD [of "a @ b" c d] by simp

lemma delivers_step:
  "delivers capacity pass_errors items f \<Longrightarrow> forward_step capacity pass_errors f g \<Longrightarrow>
   delivers capacity pass_errors items g"
  by (erule forward_stepE)
    (auto simp: delivers_def undisturbed_def interruptible_def intro: prefix_front split: fwd_phase.splits)

interpretation forwarding: step_invariant "\<lambda>f. f = new_forwarder items"
  "forward_step capacity pass_errors" "delivers capacity pass_errors items"
  by unfold_locales (auto simp: delivers_step, simp add: delivers_def new_forwarder_def)

text \<open>A measure of what an undisturbed forwarder still has to do.\<close>

fun work :: "'a forwarder \<Rightarrow> nat" where
  "work f = length (fd_queue f) + 3 * length (fd_source f)
    + (case fd_phase f of Receiving \<Rightarrow> 1 | Reserving m \<Rightarrow> 3 | SendingError e \<Rightarrow> 2 | Stopped r \<Rightarrow> 0)"

lemma forward_progress:
  assumes "undisturbed f" "0 < capacity" "fd_queue f \<noteq> [] \<or> \<not> (\<exists>r. fd_phase f = Stopped r)"
  shows "\<exists>g. forward_step capacity pass_errors f g \<and> undisturbed g \<and> work g < work f"
proof (cases "fd_queue f")
  case (Cons x q)
  with assms receive [of f x q capacity pass_errors] show ?thesis by (fastforce simp: undisturbed_def)
next
  case Nil
  note u = assms(1) [unfolded undisturbed_def]
  show ?thesis
  proof (cases "fd_phase f")
    case Receiving
    show ?thesis
    proof (cases "fd_source f")
      case Nil
      with u Receiving source_ends [of f capacity pass_errors] show ?thesis
        by (intro exI [of _ "f\<lparr>fd_phase := Stopped StoppedEnd\<rparr>"]) (simp add: undisturbed_def)
    next
      case (Cons x items)
      then show ?thesis
        using u Receiving take_item [of f _ items capacity pass_errors] take_error [of f _ items capacity pass_errors]
        by (cases x) (fastforce simp: undisturbed_def)+
    qed
  next
    case (Reserving m)
    with u Nil assms(2) send_item [of f m capacity pass_errors] show ?thesis
      by (intro exI [of _ "f\<lparr>fd_queue := fd_queue f @ [Inr m], fd_phase := Receiving\<rparr>"]) (simp add: undisturbed_def)
  next
    case (SendingError e)
    with u Nil assms(2) send_error [of f e capacity pass_errors] show ?thesis
      by (intro exI [of _ "f\<lparr>fd_queue := fd_queue f @ [Inl e], fd_phase := Stopped StoppedError\<rparr>"])
        (simp add: undisturbed_def)
  qed (use Nil assms in auto)
qed

lemma forward_completes:
  assumes "undisturbed f" "0 < capacity"
  shows "\<exists>g r. (forward_step capacity pass_errors)\<^sup>*\<^sup>* f g \<and> undisturbed g \<and> fd_queue g = [] \<and> fd_phase g = Stopped r"
  using assms(1)
proof (induction "work f" arbitrary: f rule: less_induct)
  case less
  show ?case
  proof (cases "fd_queue f = [] \<and> (\<exists>r. fd_phase f = Stopped r)")
    case True
    with less.prems show ?thesis by (intro exI [of _ f]) auto
  next
    case False
    then obtain g where g: "forward_step capacity pass_errors f g" "undisturbed g" "work g < work f"
      using forward_progress [OF less.prems assms(2)] by blast
    from less.hyps [OF g(3,2)] g(1) show ?thesis by (meson converse_rtranclp_into_rtranclp)
  qed
qed

lemma delivers_safe:
  "delivers capacity pass_errors items f \<Longrightarrow>
   length (fd_queue f) \<le> capacity \<and> prefix (fd_received f) (relayed pass_errors items)"
  by (auto simp: delivers_def dest: append_prefixD)

text \<open>What the manager of a direct stream gets of the client: a prefix of its requests, in order; errors
  are never passed on.\<close>

lemma direct_requests_in_order:
  assumes "reach (\<lambda>f. f = new_forwarder items) direct_request_step f"
  shows "length (fd_queue f) \<le> 256 \<and> prefix (fd_received f) (takeWhile (\<lambda>x. \<not> isl x) items)"
proof -
  have "relayed False items = takeWhile (\<lambda>x. \<not> isl x) items"
    by (induction "False" items rule: relayed.induct) auto
  with delivers_safe [OF forwarding.inv_reach [OF assms]] show ?thesis by (simp add: direct_request_capacity_def)
qed

section \<open>Properties\<close>

text \<open>Property C31. Forwarding: in every interleaving of a forwarder with its receiver and with
  cancellation, the channel never exceeds its capacity and the receiver has got, in order and without
  loss or duplication, a prefix of what the stream yields up to its first error (the error included
  in the response direction); and as long as the receiver stays and nobody cancels, the whole of it
  can always still be delivered.\<close>

theorem forwarder_delivers_in_order:
  assumes "reach (\<lambda>f. f = new_forwarder items) (forward_step capacity pass_errors) f" and "0 < capacity"
  shows "length (fd_queue f) \<le> capacity \<and> prefix (fd_received f) (relayed pass_errors items)
    \<and> (fd_open f \<and> \<not> fd_cancelled f \<longrightarrow>
        (\<exists>g. (forward_step capacity pass_errors)\<^sup>*\<^sup>* f g \<and> fd_received g = relayed pass_errors items))"
proof (intro conjI impI)
  have inv: "delivers capacity pass_errors items f" by (rule forwarding.inv_reach [OF assms(1)])
  then show "length (fd_queue f) \<le> capacity" "prefix (fd_received f) (relayed pass_errors items)"
    using delivers_safe by blast+
  assume "fd_open f \<and> \<not> fd_cancelled f"
  then obtain g r where g: "(forward_step capacity pass_errors)\<^sup>*\<^sup>* f g" "undisturbed g" "fd_queue g = []"
    "fd_phase g = Stopped r"
    using forward_completes [OF _ assms(2), of f pass_errors] by (auto simp: undisturbed_def)
  then show "\<exists>g. (forward_step capacity pass_errors)\<^sup>*\<^sup>* f g \<and> fd_received g = relayed pass_errors items"
    using forwarding.inv_steps [OF g(1) inv] by (auto simp: delivers_def)
qed

theorem forwarder_delivers_in_order_witness:
  "\<exists>g. (forward_step response_capacity True)\<^sup>*\<^sup>* (new_forwarder [Inr (1::nat), Inl \<lparr>sta_code = DataLoss, sta_message = []\<rparr>, Inr 2]) g
     \<and> fd_received g = [Inr 1, Inl \<lparr>sta_code = DataLoss, sta_message = []\<rparr>]"
proof -
  let ?items = "[Inr (1::nat), Inl \<lparr>sta_code = DataLoss, sta_message = []\<rparr>, Inr 2]"
  have "reach (\<lambda>f. f = new_forwarder ?items) (forward_step response_capacity True) (new_forwarder ?items)"
    by (rule reach.start) simp
  from forwarder_delivers_in_order [OF this] show ?thesis
    by (simp add: response_capacity_def new_forwarder_def)
qed

end
