(* ===== verification/Supervisor.thy ===== *)
theory Supervisor
  imports Prelude
begin

text \<open>
  Supervised subscriptions (\<open>src/src/proxy/subscribe_supervisor.rs\<close>). Every streaming call has a
  supervisor task that owns its forwarder tasks, waits for the response stream to be dropped or the
  shared token to be cancelled, grants a grace period, aborts what is left and gives the counters
  back. The model is the interleaving of the atomic steps of any number of supervisors and their
  children; the counters are the shared 64-bit atomics.
\<close>

section \<open>State\<close>

definition coop_shutdown_grace_secs :: nat where
  "coop_shutdown_grace_secs = 2"

record supervisor_counters =
  sc_active :: u64
  sc_drops_total :: u64
  sc_forwarder_aborted_total :: u64

datatype sup_phase =
    Starting \<comment> \<open>per-client counter raised, global one not yet\<close>
  | Awaiting \<comment> \<open>in the first \<open>select!\<close>\<close>
  | Grace \<comment> \<open>in the join loop, token cancelled\<close>
  | Settled \<comment> \<open>loop left, remaining children not yet counted\<close>
  | Aborting \<comment> \<open>children aborted, joining them\<close>
  | Releasing
  | PerIpReleased
  | ActiveReleased
  | Gone

text \<open>The \<open>JoinSet\<close> is the number of children still running and of those that exited but were not
  joined; its \<open>len\<close> is the sum.\<close>

record supervisor =
  sv_ip :: ip_addr
  sv_phase :: sup_phase
  sv_dropped :: bool \<comment> \<open>the handle, and with it the oneshot sender\<close>
  sv_cancelled :: bool \<comment> \<open>the cancellation token\<close>
  sv_running :: nat
  sv_exited :: nat

record fleet =
  fl_per_ip :: "ip_addr \<Rightarrow> u64"
  fl_counters :: supervisor_counters
  fl_sups :: "supervisor list"

section \<open>Steps\<close>

text \<open>\<open>SupervisorBuilder::start\<close> raises the client's counter, then the global one.\<close>

definition start_supervisor :: "ip_addr \<Rightarrow> nat \<Rightarrow> bool \<Rightarrow> fleet \<Rightarrow> fleet" where
  "start_supervisor ip children cancelled f =
    f\<lparr>fl_per_ip := (fl_per_ip f)(ip := fl_per_ip f ip + 1),
      fl_sups := fl_sups f @ [\<lparr>sv_ip = ip, sv_phase = Starting, sv_dropped = False,
        sv_cancelled = cancelled, sv_running = children, sv_exited = 0\<rparr>]\<rparr>"

definition count :: "(supervisor_counters \<Rightarrow> supervisor_counters) \<Rightarrow> fleet \<Rightarrow> fleet" where
  "count g f = f\<lparr>fl_counters := g (fl_counters f)\<rparr>"

definition put :: "nat \<Rightarrow> supervisor \<Rightarrow> fleet \<Rightarrow> fleet" where
  "put i s f = f\<lparr>fl_sups := (fl_sups f)[i := s]\<rparr>"

definition joinset_len :: "supervisor \<Rightarrow> nat" where
  "joinset_len s = sv_running s + sv_exited s"

text \<open>One step of the supervisor at position \<open>i\<close>, whose state is \<open>s\<close>.\<close>

inductive own_step :: "nat \<Rightarrow> supervisor \<Rightarrow> fleet \<Rightarrow> fleet \<Rightarrow> bool" for i s f where
  activate: "sv_phase s = Starting \<Longrightarrow>
    own_step i s f (count (\<lambda>c. c\<lparr>sc_active := sc_active c + 1\<rparr>) (put i (s\<lparr>sv_phase := Awaiting\<rparr>) f))"
| signal: "sv_phase s = Awaiting \<Longrightarrow> sv_dropped s \<or> sv_cancelled s \<Longrightarrow>
    own_step i s f (put i (s\<lparr>sv_phase := Grace, sv_cancelled := True\<rparr>) f)"
| join: "sv_phase s = Grace \<Longrightarrow> sv_exited s = Suc e \<Longrightarrow> own_step i s f (put i (s\<lparr>sv_exited := e\<rparr>) f)"
| joined_all: "sv_phase s = Grace \<Longrightarrow> joinset_len s = 0 \<Longrightarrow> own_step i s f (put i (s\<lparr>sv_phase := Settled\<rparr>) f)"
| grace_over: "sv_phase s = Grace \<Longrightarrow> own_step i s f (put i (s\<lparr>sv_phase := Settled\<rparr>) f)"
| none_left: "sv_phase s = Settled \<Longrightarrow> joinset_len s = 0 \<Longrightarrow> own_step i s f (put i (s\<lparr>sv_phase := Releasing\<rparr>) f)"
| abort_all: "sv_phase s = Settled \<Longrightarrow> joinset_len s > 0 \<Longrightarrow>
    own_step i s f
      (count (\<lambda>c. c\<lparr>sc_forwarder_aborted_total := sc_forwarder_aborted_total c + of_nat (joinset_len s)\<rparr>)
        (put i (s\<lparr>sv_phase := Aborting\<rparr>) f))"
| join_aborted: "sv_phase s = Aborting \<Longrightarrow> sv_exited s = Suc e \<Longrightarrow> own_step i s f (put i (s\<lparr>sv_exited := e\<rparr>) f)"
| aborted_all: "sv_phase s = Aborting \<Longrightarrow> joinset_len s = 0 \<Longrightarrow>
    own_step i s f (put i (s\<lparr>sv_phase := Releasing\<rparr>) f)"
| release_per_ip: "sv_phase s = Releasing \<Longrightarrow>
    own_step i s f (put i (s\<lparr>sv_phase := PerIpReleased\<rparr>)
      (f\<lparr>fl_per_ip := (fl_per_ip f)(sv_ip s := fl_per_ip f (sv_ip s) - 1)\<rparr>))"
| release_active: "sv_phase s = PerIpReleased \<Longrightarrow>
    own_step i s f (count (\<lambda>c. c\<lparr>sc_active := sc_active c - 1\<rparr>) (put i (s\<lparr>sv_phase := ActiveReleased\<rparr>) f))"
| count_drop: "sv_phase s = ActiveReleased \<Longrightarrow>
    own_step i s f (count (\<lambda>c. c\<lparr>sc_drops_total := sc_drops_total c + 1\<rparr>) (put i (s\<lparr>sv_phase := Gone\<rparr>) f))"

text \<open>Steps of the environment: children exit, the response stream is dropped, somebody cancels.\<close>

inductive outer_step :: "nat \<Rightarrow> supervisor \<Rightarrow> fleet \<Rightarrow> fleet \<Rightarrow> bool" for i s f where
  child_exits: "sv_running s = Suc r \<Longrightarrow>
    outer_step i s f (put i (s\<lparr>sv_running := r, sv_exited := Suc (sv_exited s)\<rparr>) f)"
| stream_dropped: "sv_phase s \<noteq> Starting \<Longrightarrow> outer_step i s f (put i (s\<lparr>sv_dropped := True\<rparr>) f)"
| token_cancelled: "outer_step i s f (put i (s\<lparr>sv_cancelled := True\<rparr>) f)"

inductive fleet_step :: "fleet \<Rightarrow> fleet \<Rightarrow> bool" where
  start: "fleet_step f (start_supervisor ip children cancelled f)"
| own: "i < length (fl_sups f) \<Longrightarrow> own_step i (fl_sups f ! i) f f' \<Longrightarrow> fleet_step f f'"
| outer: "i < length (fl_sups f) \<Longrightarrow> outer_step i (fl_sups f ! i) f f' \<Longrightarrow> fleet_step f f'"

inductive_cases own_stepE: "own_step i s f f'"
inductive_cases outer_stepE: "outer_step i s f f'"
inductive_cases fleet_stepE: "fleet_step f f'"

definition no_supervisors :: "fleet \<Rightarrow> bool" where
  "no_supervisors f \<longleftrightarrow> fl_sups f = [] \<and> fl_per_ip f = (\<lambda>_. 0)
     \<and> fl_counters f = \<lparr>sc_active = 0, sc_drops_total = 0, sc_forwarder_aborted_total = 0\<rparr>"

section \<open>Counter invariant\<close>

definition holds_ip :: "ip_addr \<Rightarrow> supervisor \<Rightarrow> u64" where
  "holds_ip ip s = (if sv_ip s = ip \<and> sv_phase s \<notin> {PerIpReleased, ActiveReleased, Gone} then 1 else 0)"

definition holds_active :: "supervisor \<Rightarrow> u64" where
  "holds_active s = (if sv_phase s \<notin> {Starting, ActiveReleased, Gone} then 1 else 0)"

definition is_gone :: "supervisor \<Rightarrow> u64" where
  "is_gone s = (if sv_phase s = Gone then 1 else 0)"

definition total :: "(supervisor \<Rightarrow> u64) \<Rightarrow> fleet \<Rightarrow> u64" where
  "total g f = sum_list (map g (fl_sups f))"

definition counters_exact :: "fleet \<Rightarrow> bool" where
  "counters_exact f \<longleftrightarrow> (\<forall>ip. fl_per_ip f ip = total (holds_ip ip) f)
     \<and> sc_active (fl_counters f) = total holds_active f
     \<and> sc_drops_total (fl_counters f) = total is_gone f"

lemma sum_list_map_update:
  fixes g :: "'a \<Rightarrow> 'b::ab_group_add"
  shows "i < length xs \<Longrightarrow> sum_list (map g (xs[i := y])) = sum_list (map g xs) - g (xs ! i) + g y"
  by (induction xs arbitrary: i) (auto split: nat.splits simp: algebra_simps)

lemma total_put:
  "i < length (fl_sups f) \<Longrightarrow> total g (put i s f) = total g f - g (fl_sups f ! i) + g s"
  by (simp add: total_def put_def sum_list_map_update)

lemma total_frame [simp]:
  "total g (count h f) = total g f" "total g (f\<lparr>fl_per_ip := p\<rparr>) = total g f"
  "total g (start_supervisor ip n c f) = total g f +
     g \<lparr>sv_ip = ip, sv_phase = Starting, sv_dropped = False, sv_cancelled = c, sv_running = n, sv_exited = 0\<rparr>"
  by (simp_all add: total_def count_def start_supervisor_def)

lemma counters_frame [simp]:
  "fl_per_ip (count h f) = fl_per_ip f" "fl_per_ip (put i s f) = fl_per_ip f"
  "fl_counters (put i s f) = fl_counters f" "fl_counters (count h f) = h (fl_counters f)"
  "fl_sups (count h f) = fl_sups f" "fl_sups (put i s f) = (fl_sups f)[i := s]"
  "fl_counters (start_supervisor ip n c f) = fl_counters f"
  "fl_per_ip (start_supervisor ip n c f) = (fl_per_ip f)(ip := fl_per_ip f ip + 1)"
  by (simp_all add: count_def put_def start_supervisor_def)

lemmas holds_defs = holds_ip_def holds_active_def is_gone_def

lemma counters_exact_own:
  "i < length (fl_sups f) \<Longrightarrow> own_step i (fl_sups f ! i) f f' \<Longrightarrow> counters_exact f \<Longrightarrow> counters_exact f'"
  by (erule own_stepE) (auto simp: counters_exact_def total_put holds_defs)

lemma counters_exact_outer:
  "i < length (fl_sups f) \<Longrightarrow> outer_step i (fl_sups f ! i) f f' \<Longrightarrow> counters_exact f \<Longrightarrow> counters_exact f'"
  by (erule outer_stepE) (auto simp: counters_exact_def total_put holds_defs)

lemma counters_exact_step: "counters_exact f \<Longrightarrow> fleet_step f f' \<Longrightarrow> counters_exact f'"
  by (erule fleet_stepE)
    (auto intro: counters_exact_own counters_exact_outer, auto simp: counters_exact_def holds_defs)

interpretation fleet_counters: step_invariant no_supervisors fleet_step counters_exact
  by unfold_locales
    (auto simp: counters_exact_step, auto simp: no_supervisors_def counters_exact_def total_def)

section \<open>Shutdown\<close>

definition signalled :: "supervisor \<Rightarrow> bool" where
  "signalled s \<longleftrightarrow> sv_phase s \<noteq> Starting \<and> (sv_phase s = Awaiting \<longrightarrow> sv_dropped s \<or> sv_cancelled s)"

fun phase_rank :: "sup_phase \<Rightarrow> nat" where
  "phase_rank Starting = 8"
| "phase_rank Awaiting = 7"
| "phase_rank Grace = 6"
| "phase_rank Settled = 5"
| "phase_rank Aborting = 4"
| "phase_rank Releasing = 3"
| "phase_rank PerIpReleased = 2"
| "phase_rank ActiveReleased = 1"
| "phase_rank Gone = 0"

definition sup_order :: "(supervisor \<times> supervisor) set" where
  "sup_order = measures [\<lambda>s. phase_rank (sv_phase s), \<lambda>s. 2 * sv_running s + sv_exited s]"

lemma wf_sup_order: "wf sup_order"
  by (simp add: sup_order_def)

lemma shutdown_progress:
  assumes "i < length (fl_sups f)" "signalled (fl_sups f ! i)" "sv_phase (fl_sups f ! i) \<noteq> Gone"
  shows "\<exists>f' s'. fleet_step f f' \<and> fl_sups f' = (fl_sups f)[i := s'] \<and> signalled s'
    \<and> sv_ip s' = sv_ip (fl_sups f ! i) \<and> (s', fl_sups f ! i) \<in> sup_order"
proof -
  let ?s = "fl_sups f ! i"
  note own = fleet_step.own [OF assms(1)] and outer = fleet_step.outer [OF assms(1)]
  note facts = assms(2) signalled_def sup_order_def joinset_len_def
  show ?thesis
  proof (cases "sv_phase ?s")
    case Awaiting
    with assms(2) own [OF signal] show ?thesis by (fastforce simp: signalled_def sup_order_def)
  next
    case Grace
    with own [OF grace_over] show ?thesis by (fastforce simp: signalled_def sup_order_def)
  next
    case Settled
    show ?thesis
    proof (cases "joinset_len ?s = 0")
      case True
      with own [OF none_left] Settled show ?thesis by (fastforce simp: signalled_def sup_order_def)
    next
      case False
      with own [OF abort_all] Settled show ?thesis by (fastforce simp: signalled_def sup_order_def)
    qed
  next
    case Aborting
    consider e where "sv_exited ?s = Suc e" | r where "sv_running ?s = Suc r" | "joinset_len ?s = 0"
      by (cases "sv_exited ?s"; cases "sv_running ?s") (auto simp: joinset_len_def)
    then show ?thesis
    proof cases
      case 1
      with own [OF join_aborted] Aborting show ?thesis by (fastforce simp: signalled_def sup_order_def)
    next
      case 2
      with outer [OF child_exits] Aborting show ?thesis by (fastforce simp: signalled_def sup_order_def)
    next
      case 3
      with own [OF aborted_all] Aborting show ?thesis by (fastforce simp: signalled_def sup_order_def)
    qed
  next
    case Releasing
    with own [OF release_per_ip] show ?thesis by (fastforce simp: signalled_def sup_order_def)
  next
    case PerIpReleased
    with own [OF release_active] show ?thesis by (fastforce simp: signalled_def sup_order_def)
  next
    case ActiveReleased
    with own [OF count_drop] show ?thesis by (fastforce simp: signalled_def sup_order_def)
  qed (use assms in \<open>auto simp: signalled_def\<close>)
qed

lemma shutdown_completes:
  assumes "i < length (fl_sups f)" "signalled (fl_sups f ! i)"
  shows "\<exists>f' s'. fleet_step\<^sup>*\<^sup>* f f' \<and> fl_sups f' = (fl_sups f)[i := s']
    \<and> sv_ip s' = sv_ip (fl_sups f ! i) \<and> sv_phase s' = Gone"
  using assms
proof (induction "fl_sups f ! i" arbitrary: f rule: wf_induct_rule [OF wf_sup_order])
  case 1
  show ?case
  proof (cases "sv_phase (fl_sups f ! i) = Gone")
    case True
    then show ?thesis by (intro exI [of _ f] exI [of _ "fl_sups f ! i"]) simp
  next
    case False
    from shutdown_progress [OF "1.prems" this] obtain g s' where
      g: "fleet_step f g" "fl_sups g = (fl_sups f)[i := s']" "signalled s'"
        "sv_ip s' = sv_ip (fl_sups f ! i)" "(s', fl_sups f ! i) \<in> sup_order" by blast
    then have at: "fl_sups g ! i = s'" "i < length (fl_sups g)" using "1.prems" by simp_all
    from "1.hyps" [of g] g at obtain f' s'' where
      "fleet_step\<^sup>*\<^sup>* g f'" "fl_sups f' = (fl_sups g)[i := s'']" "sv_ip s'' = sv_ip s'" "sv_phase s'' = Gone"
      by auto
    with g show ?thesis
      by (intro exI [of _ f'] exI [of _ s'']) (auto intro: converse_rtranclp_into_rtranclp)
  qed
qed

section \<open>Properties\<close>

lemma sum_indicator: "sum_list (map (\<lambda>s. if P s then 1 else 0) xs) = (of_nat (length (filter P xs)) :: u64)"
  by (induction xs) auto

text \<open>Property C24. Exact counters: in every interleaving, each client's stream counter is the number
  of its supervisors that have not given it back yet, the global gauge is the number of supervisors
  between activation and release, and the drop counter is the number that finished. When all have
  finished, every client's counter and the gauge are zero.\<close>

theorem supervisor_counters_exact:
  assumes "reach no_supervisors fleet_step f"
  shows "fl_per_ip f ip = of_nat (length (filter (\<lambda>s. sv_ip s = ip
           \<and> sv_phase s \<notin> {PerIpReleased, ActiveReleased, Gone}) (fl_sups f)))
    \<and> sc_active (fl_counters f) = of_nat (length (filter (\<lambda>s. sv_phase s \<notin> {Starting, ActiveReleased, Gone}) (fl_sups f)))
    \<and> sc_drops_total (fl_counters f) = of_nat (length (filter (\<lambda>s. sv_phase s = Gone) (fl_sups f)))
    \<and> ((\<forall>s \<in> set (fl_sups f). sv_phase s = Gone) \<longrightarrow>
         fl_per_ip f ip = 0 \<and> sc_active (fl_counters f) = 0
         \<and> sc_drops_total (fl_counters f) = of_nat (length (fl_sups f)))"
proof -
  have "counters_exact f" by (rule fleet_counters.inv_reach [OF assms])
  moreover have "filter (\<lambda>s. sv_ip s = ip \<and> sv_phase s \<notin> {PerIpReleased, ActiveReleased, Gone}) (fl_sups f) = []"
    "filter (\<lambda>s. sv_phase s \<notin> {Starting, ActiveReleased, Gone}) (fl_sups f) = []"
    "filter (\<lambda>s. sv_phase s = Gone) (fl_sups f) = fl_sups f"
    if "\<forall>s \<in> set (fl_sups f). sv_phase s = Gone"
    using that by (auto simp: filter_empty_conv filter_id_conv)
  ultimately show ?thesis
    unfolding counters_exact_def total_def holds_ip_def [abs_def] holds_active_def [abs_def]
      is_gone_def [abs_def] sum_indicator by fastforce
qed

definition empty_fleet :: fleet where
  "empty_fleet = \<lparr>fl_per_ip = (\<lambda>_. 0),
     fl_counters = \<lparr>sc_active = 0, sc_drops_total = 0, sc_forwarder_aborted_total = 0\<rparr>, fl_sups = []\<rparr>"

definition example_fleet :: fleet where
  "example_fleet = start_supervisor (V4 1) 2 True empty_fleet"

lemma example_fleet_reach: "reach no_supervisors fleet_step example_fleet"
  unfolding example_fleet_def
  by (rule reach.step [of _ _ empty_fleet, OF reach.start])
    (simp_all add: no_supervisors_def empty_fleet_def fleet_step.start)

theorem supervisor_counters_exact_witness:
  "fl_per_ip example_fleet (V4 1) = 1 \<and> sc_active (fl_counters example_fleet) = 0"
  using supervisor_counters_exact [OF example_fleet_reach, of "V4 1"]
  by (simp add: example_fleet_def start_supervisor_def empty_fleet_def)


definition example_running :: fleet where
  "example_running = count (\<lambda>c. c\<lparr>sc_active := sc_active c + 1\<rparr>)
     (put 0 ((fl_sups example_fleet ! 0)\<lparr>sv_phase := Awaiting\<rparr>) example_fleet)"

lemma example_running_reach: "reach no_supervisors fleet_step example_running"
  unfolding example_running_def
  by (rule reach.step [OF example_fleet_reach fleet_step.own [OF _ activate]])
    (simp_all add: example_fleet_def start_supervisor_def empty_fleet_def)


lemma own_step_frame: "own_step i s f f' \<Longrightarrow> \<exists>s'. fl_sups f' = (fl_sups f)[i := s']"
  by (erule own_stepE) auto

lemma awaiting_stays: "own_step i s f f' \<Longrightarrow> sv_phase s = Awaiting \<Longrightarrow> sv_dropped s \<or> sv_cancelled s"
  by (erule own_stepE) auto

lemma outer_step_frame:
  "outer_step i s f f' \<Longrightarrow> \<exists>s'. fl_sups f' = (fl_sups f)[i := s'] \<and> sv_phase s' = sv_phase s"
  by (erule outer_stepE) auto

text \<open>A half-closed subscription lives on: while the response stream is held and nobody
  cancels, no step of any task (a forwarder of the subscription finishing included) makes the
  supervisor leave its waiting state.\<close>

theorem supervisor_waits:
  assumes "i < length (fl_sups f)" "sv_phase (fl_sups f ! i) = Awaiting"
    "\<not> sv_dropped (fl_sups f ! i)" "\<not> sv_cancelled (fl_sups f ! i)" "fleet_step f f'"
  shows "i < length (fl_sups f') \<and> sv_phase (fl_sups f' ! i) = Awaiting"
  using assms(5)
proof (cases rule: fleet_step.cases)
  case start
  then show ?thesis using assms by (simp add: start_supervisor_def nth_append)
next
  case (own j)
  then have "j \<noteq> i" using assms awaiting_stays by blast
  with own own_step_frame [OF own(2)] assms show ?thesis by fastforce
next
  case (outer j)
  with outer_step_frame [OF outer(2)] assms show ?thesis by (cases "i = j") fastforce+
qed

theorem supervisor_waits_witness:
  "let f = put 0 ((fl_sups example_running ! 0)\<lparr>sv_cancelled := False\<rparr>) example_running;
       f' = put 0 ((fl_sups f ! 0)\<lparr>sv_running := 1, sv_exited := 1\<rparr>) f
   in fleet_step f f' \<and> sv_phase (fl_sups f' ! 0) = Awaiting"
proof -
  define f where "f = put 0 ((fl_sups example_running ! 0)\<lparr>sv_cancelled := False\<rparr>) example_running"
  let ?f' = "put 0 ((fl_sups f ! 0)\<lparr>sv_running := 1, sv_exited := Suc (sv_exited (fl_sups f ! 0))\<rparr>) f"
  have f: "0 < length (fl_sups f)" "sv_phase (fl_sups f ! 0) = Awaiting" "\<not> sv_dropped (fl_sups f ! 0)"
    "\<not> sv_cancelled (fl_sups f ! 0)" "sv_running (fl_sups f ! 0) = Suc 1" "sv_exited (fl_sups f ! 0) = 0"
    by (simp_all add: f_def example_running_def example_fleet_def start_supervisor_def empty_fleet_def)
  have st: "fleet_step f ?f'" by (rule fleet_step.outer [OF f(1) child_exits [OF f(5)]])
  from supervisor_waits [OF f(1-4) this] st f(6) show ?thesis
    unfolding Let_def f_def [symmetric] using f(2) by simp
qed

end
