(* ===== verification/Yellowstone.thy ===== *)
theory Yellowstone
  imports Forwarder Http_Rpc Supervisor
begin

text \<open>
  The Yellowstone gRPC service (\<open>src/src/proxy/grpc_yellowstone.rs\<close>): admission of a subscription, its
  routing to the shared stream or to a direct upstream stream, the manager of a direct stream that
  reconnects for ever, the forwarder that answers pings, and the unary calls. What peers send, when
  they cancel and how long streams live are inputs.
\<close>

section \<open>State and helpers\<close>

definition max_streams_per_ip :: u64 where
  "max_streams_per_ip = 500"

record yellowstone =
  ye_router :: router
  ye_pool :: grpc_pool
  ye_whitelist :: ip_whitelist
  ye_keys :: api_key_store
  ye_stats :: stats
  ye_replay_on_reconnect :: bool
  ye_stream_seq :: u64

definition extract_client_ip :: "ip_addr option \<Rightarrow> grpc_status + ip_addr" where
  "extract_client_ip remote_addr =
    (case remote_addr of
       Some ip \<Rightarrow> Inr ip
     | None \<Rightarrow> Inl \<lparr>sta_code = Internal, sta_message = ''Cannot determine client IP''\<rparr>)"

definition check_access :: "yellowstone \<Rightarrow> ip_addr option \<Rightarrow> string option \<Rightarrow> grpc_status + ip_addr" where
  "check_access y remote_addr api_key =
    (case extract_client_ip remote_addr of
       Inl e \<Rightarrow> Inl e
     | Inr ip \<Rightarrow>
         if \<exists>k. api_key = Some k \<and> validate_key (ye_keys y) k \<noteq> None then Inr ip
         else if \<not> is_allowed (ye_whitelist y) ip
         then Inl \<lparr>sta_code = PermissionDenied, sta_message = ''Unauthorized''\<rparr>
         else Inr ip)"

text \<open>\<open>get_upstream\<close>: the node chosen, unless no channel can be opened (\<open>opening\<close> is the pool's or
  a fresh connection's outcome).\<close>

definition get_upstream ::
    "(node_config \<Rightarrow> grpc_status + unit) \<Rightarrow> router \<Rightarrow> grpc_status + (string \<times> string)" where
  "get_upstream opening r =
    (case pick_grpc_node r of
       None \<Rightarrow> Inl \<lparr>sta_code = Unavailable, sta_message = ''No healthy gRPC nodes''\<rparr>
     | Some node \<Rightarrow>
         (case opening (ne_config node) of
            Inl e \<Rightarrow> Inl e
          | Inr _ \<Rightarrow> Inr (nc_grpc_x_token (ne_config node), nc_id (ne_config node))))"

text \<open>\<open>tonic::Request\<close>: a message with its metadata. Inserting an entry replaces those of the same name.\<close>

record 'm grpc_request =
  rq_metadata :: "(string \<times> string) list"
  rq_message :: 'm

definition insert_metadata :: "string \<Rightarrow> string \<Rightarrow> 'm grpc_request \<Rightarrow> 'm grpc_request" where
  "insert_metadata k v req = req\<lparr>rq_metadata := filter (\<lambda>(k', _). k' \<noteq> k) (rq_metadata req) @ [(k, v)]\<rparr>"

definition inject_token :: "(string \<Rightarrow> bool) \<Rightarrow> 'm grpc_request \<Rightarrow> string \<Rightarrow> 'm grpc_request" where
  "inject_token valid req x_token =
    (if x_token \<noteq> [] then if valid x_token then insert_metadata ''x-token'' x_token req else req else req)"

text \<open>Every unary method forwards the request to the chosen node as it came, its metadata included, and
  drops the token that \<open>get_upstream\<close> returns.\<close>

definition unary_call ::
    "(node_config \<Rightarrow> grpc_status + unit) \<Rightarrow> (string \<Rightarrow> 'm grpc_request \<Rightarrow> grpc_status + 'resp) \<Rightarrow> yellowstone
     \<Rightarrow> 'm grpc_request \<Rightarrow> grpc_status + 'resp" where
  "unary_call opening upstream y req =
    (case get_upstream opening (ye_router y) of
       Inl e \<Rightarrow> Inl e
     | Inr (x_token, node_id) \<Rightarrow> upstream node_id req)"

definition subscribe_deshred :: "grpc_status" where
  "subscribe_deshred =
    \<lparr>sta_code = Unimplemented, sta_message = ''SubscribeDeshred is not supported by this proxy''\<rparr>"

definition subscribe_gossip :: "grpc_status" where
  "subscribe_gossip =
    \<lparr>sta_code = Unimplemented, sta_message = ''SubscribeGossip is not supported by this proxy''\<rparr>"

section \<open>Admission of a subscription\<close>

datatype subscription =
    Refused grpc_status
  | Direct subscribe_request string \<comment> \<open>first request, label\<close>
  | Muxed compiled_filters string

text \<open>The part before the first request is awaited: authentication, the stream limit (read, not
  raised) and the request counter. \<open>Inr\<close> is the client's address.\<close>

definition subscribe_admit ::
    "(u64 \<Rightarrow> string) \<Rightarrow> ip_addr option \<Rightarrow> string option \<Rightarrow> yellowstone \<Rightarrow> (grpc_status + ip_addr) \<times> yellowstone" where
  "subscribe_admit show_u64 remote_addr api_key y =
    (case extract_client_ip remote_addr of
       Inl e \<Rightarrow> (Inl e, y)
     | Inr ip \<Rightarrow>
         let has_key = (Option.bind api_key (validate_key (ye_keys y)) \<noteq> None)
         in if \<not> has_key \<and> \<not> is_allowed (ye_whitelist y) ip
            then (Inl \<lparr>sta_code = PermissionDenied, sta_message = ''Unauthorized''\<rparr>, y)
            else
              (case get_or_create ip (ye_stats y) of
                 (ip_stats, st) \<Rightarrow>
                   let current_streams = is_active_grpc_streams ip_stats
                   in if current_streams \<ge> max_streams_per_ip
                      then (Inl \<lparr>sta_code = ResourceExhausted,
                                 sta_message = ''Too many concurrent gRPC streams ('' @ show_u64 current_streams
                                   @ ''), max '' @ show_u64 max_streams_per_ip\<rparr>,
                            y\<lparr>ye_stats := st\<rparr>)
                      else (Inr ip,
                            y\<lparr>ye_stats := modify_ip ip
                               (\<lambda>x. x\<lparr>is_total_grpc_requests := is_total_grpc_requests x + 1\<rparr>) st\<rparr>)))"

text \<open>Starting the supervisor raises the client's stream counter and the global gauge.\<close>

definition start_stream :: "ip_addr \<Rightarrow> yellowstone \<Rightarrow> yellowstone" where
  "start_stream ip y =
    (let st = modify_ip ip (\<lambda>x. x\<lparr>is_active_grpc_streams := is_active_grpc_streams x + 1\<rparr>) (ye_stats y)
     in y\<lparr>ye_stats := st\<lparr>st_subscribe_supervisor_alive := st_subscribe_supervisor_alive st + 1\<rparr>\<rparr>)"

text \<open>The part after the first item of the request stream has arrived.\<close>

definition subscribe_route ::
    "decoder \<Rightarrow> (ip_addr \<Rightarrow> string) \<Rightarrow> (u64 \<Rightarrow> string) \<Rightarrow> (grpc_status \<Rightarrow> string) \<Rightarrow> ip_addr
     \<Rightarrow> (grpc_status + subscribe_request) option \<Rightarrow> yellowstone \<Rightarrow> subscription \<times> yellowstone" where
  "subscribe_route decode show_ip show_u64 show_status ip first y =
    (case first of
       None \<Rightarrow> (Refused \<lparr>sta_code = InvalidArgument, sta_message = ''Empty subscribe stream''\<rparr>, y)
     | Some (Inl e) \<Rightarrow> (Refused \<lparr>sta_code = Internal, sta_message = ''Stream error: '' @ show_status e\<rparr>, y)
     | Some (Inr first_msg) \<Rightarrow>
         let filters = from_request decode first_msg;
             label = show_ip ip @ ''#'' @ show_u64 (ye_stream_seq y);
             y = y\<lparr>ye_stream_seq := ye_stream_seq y + 1\<rparr>
         in if needs_direct_connection filters \<or> \<not> has_mux_subscriptions filters
            then (Direct first_msg label, start_stream ip y)
            else (Muxed filters label, start_stream ip y))"

definition subscribe ::
    "decoder \<Rightarrow> (ip_addr \<Rightarrow> string) \<Rightarrow> (u64 \<Rightarrow> string) \<Rightarrow> (grpc_status \<Rightarrow> string) \<Rightarrow> ip_addr option \<Rightarrow> string option
     \<Rightarrow> (grpc_status + subscribe_request) option \<Rightarrow> yellowstone \<Rightarrow> subscription \<times> yellowstone" where
  "subscribe decode show_ip show_u64 show_status remote_addr api_key first y =
    (case subscribe_admit show_u64 remote_addr api_key y of
       (Inl e, y) \<Rightarrow> (Refused e, y)
     | (Inr ip, y) \<Rightarrow> subscribe_route decode show_ip show_u64 show_status ip first y)"

text \<open>The forwarder of the shared path: pings are answered, other requests ignored.\<close>

fun answer_pings :: "(grpc_status + subscribe_request) list \<Rightarrow> subscribe_update list" where
  "answer_pings [] = []"
| "answer_pings (Inl e # items) = []"
| "answer_pings (Inr msg # items) =
    (case sr_ping msg of
       Some pid \<Rightarrow> \<lparr>up_filters = [], up_oneof = Some (UPong pid), up_created_at = None\<rparr> # answer_pings items
     | None \<Rightarrow> answer_pings items)"

section \<open>Direct streams\<close>

datatype close_reason = CloseCancelled | CloseClientGone

text \<open>What one turn of the manager's \<open>select!\<close> meets: an interruption (the token or the client's
  receiver), a message of the client (\<open>None\<close>: half-closed) with whether the upstream accepts it, or
  an item of the upstream stream with an interruption while waiting for room.\<close>

datatype direct_event =
    Interrupt close_reason
  | FromClient "subscribe_request option" bool
  | FromUpstream "(grpc_status + subscribe_update) option" "close_reason option"

record direct_attempt =
  da_connect :: "close_reason + (grpc_status + unit)"
  da_events :: "direct_event list"
  da_lived :: duration
  da_sleep :: "close_reason option"

record direct_mgr =
  dm_latest_req :: subscribe_request
  dm_last_slot :: u64
  dm_total_forwarded :: u64
  dm_attempts :: u64
  dm_backoff :: duration
  dm_replay_from :: "u64 option"
  dm_client_open :: bool
  dm_stream_msgs :: u64
  dm_pool :: grpc_pool
  dm_delivered :: "subscribe_update list"
  dm_subscribed :: "(subscribe_request \<times> string option) list" \<comment> \<open>first request of each attempt\<close>
  dm_upstream :: "subscribe_request list" \<comment> \<open>client messages passed on\<close>
  dm_closed :: "close_reason option"
  dm_streaming :: bool \<comment> \<open>an upstream stream is still open\<close>

definition new_direct_mgr :: "grpc_pool \<Rightarrow> subscribe_request \<Rightarrow> direct_mgr" where
  "new_direct_mgr pool first_msg =
    \<lparr>dm_latest_req = first_msg, dm_last_slot = 0, dm_total_forwarded = 0, dm_attempts = 0,
     dm_backoff = 1000, dm_replay_from = None, dm_client_open = True, dm_stream_msgs = 0, dm_pool = pool,
     dm_delivered = [], dm_subscribed = [], dm_upstream = [], dm_closed = None, dm_streaming = False\<rparr>"

datatype stream_end = StreamErr bool | StreamEof | StreamClosed close_reason | StillOpen

definition note_slot :: "subscribe_update \<Rightarrow> direct_mgr \<Rightarrow> direct_mgr" where
  "note_slot msg m =
    (case up_oneof msg of
       Some (USlot s) \<Rightarrow> if su_slot s > dm_last_slot m then m\<lparr>dm_last_slot := su_slot s\<rparr> else m
     | _ \<Rightarrow> m)"

fun direct_stream :: "direct_event list \<Rightarrow> direct_mgr \<Rightarrow> stream_end \<times> direct_mgr" where
  "direct_stream [] m = (StillOpen, m)"
| "direct_stream (Interrupt c # es) m = (StreamClosed c, m)"
| "direct_stream (FromClient None ok # es) m = direct_stream es (m\<lparr>dm_client_open := False\<rparr>)"
| "direct_stream (FromClient (Some msg) ok # es) m =
    (if \<not> dm_client_open m then direct_stream es m
     else
       let m = (if sr_ping msg = None then m\<lparr>dm_latest_req := msg\<rparr> else m)
       in if ok then direct_stream es (m\<lparr>dm_upstream := dm_upstream m @ [msg]\<rparr>) else (StreamErr False, m))"
| "direct_stream (FromUpstream (Some (Inr msg)) room # es) m =
    (let m = note_slot msg (m\<lparr>dm_stream_msgs := dm_stream_msgs m + 1\<rparr>)
     in (case room of
           Some c \<Rightarrow> (StreamClosed c, m)
         | None \<Rightarrow> direct_stream es
             (m\<lparr>dm_delivered := dm_delivered m @ [msg], dm_total_forwarded := dm_total_forwarded m + 1\<rparr>)))"
| "direct_stream (FromUpstream (Some (Inl e)) room # es) m = (StreamErr (is_replay_rejection e), m)"
| "direct_stream (FromUpstream None room # es) m = (StreamEof, m)"

definition sleep_backoff :: "close_reason option \<Rightarrow> direct_mgr \<Rightarrow> direct_mgr" where
  "sleep_backoff interrupted m =
    (case interrupted of
       Some c \<Rightarrow> m\<lparr>dm_closed := Some c\<rparr>
     | None \<Rightarrow> m\<lparr>dm_backoff := min (dm_backoff m * 2) 10000\<rparr>)"

definition direct_replay :: "bool \<Rightarrow> stream_end \<Rightarrow> direct_mgr \<Rightarrow> u64 option" where
  "direct_replay replay ended m =
    (let rejected = dm_replay_from m \<noteq> None \<and> (dm_stream_msgs m = 0 \<or> ended = StreamErr True)
     in if \<not> replay then None
        else if rejected then None
        else if dm_last_slot m > 0 then Some (dm_last_slot m)
        else None)"

definition upstream_request :: "direct_mgr \<Rightarrow> subscribe_request" where
  "upstream_request m =
    (case dm_replay_from m of
       Some fs \<Rightarrow> (dm_latest_req m)\<lparr>sr_from_slot := Some fs\<rparr>
     | None \<Rightarrow> dm_latest_req m)"

text \<open>One turn of the reconnect loop, with its two ways to fail: the subscription is refused, or the
  established stream ends.\<close>

definition begin_attempt :: "(string \<Rightarrow> bool) \<Rightarrow> node_config \<Rightarrow> direct_mgr \<Rightarrow> direct_mgr" where
  "begin_attempt valid nc m =
    m\<lparr>dm_subscribed := dm_subscribed m @ [(upstream_request m, upstream_token valid nc)]\<rparr>"

definition connect_failed :: "string \<Rightarrow> grpc_status \<Rightarrow> close_reason option \<Rightarrow> direct_mgr \<Rightarrow> direct_mgr" where
  "connect_failed node_id e interrupted m =
    (let m = m\<lparr>dm_pool := pool_invalidate node_id (dm_pool m)\<rparr>;
         m = (if dm_replay_from m \<noteq> None \<and> is_replay_rejection e then m\<lparr>dm_replay_from := None\<rparr> else m)
     in sleep_backoff interrupted m)"

definition stream_ended ::
    "bool \<Rightarrow> string \<Rightarrow> stream_end \<Rightarrow> duration \<Rightarrow> close_reason option \<Rightarrow> direct_mgr \<Rightarrow> direct_mgr" where
  "stream_ended replay node_id ended lived interrupted m =
    (let m = m\<lparr>dm_pool := pool_invalidate node_id (dm_pool m)\<rparr>;
         m = m\<lparr>dm_replay_from := direct_replay replay ended m\<rparr>;
         m = (if lived \<ge> 5000 then m\<lparr>dm_backoff := 1000\<rparr> else m)
     in sleep_backoff interrupted m)"

definition direct_iteration ::
    "(string \<Rightarrow> bool) \<Rightarrow> bool \<Rightarrow> router \<Rightarrow> direct_attempt \<Rightarrow> direct_mgr \<Rightarrow> direct_mgr" where
  "direct_iteration valid replay r a m =
    (let m = m\<lparr>dm_attempts := dm_attempts m + 1\<rparr>
     in (case pick_single_node r of
           None \<Rightarrow> (case da_sleep a of Some c \<Rightarrow> m\<lparr>dm_closed := Some c\<rparr> | None \<Rightarrow> m)
         | Some node \<Rightarrow>
             let node_id = nc_id (ne_config node);
                 m = begin_attempt valid (ne_config node) m
             in (case da_connect a of
                   Inl c \<Rightarrow> m\<lparr>dm_closed := Some c\<rparr>
                 | Inr (Inl e) \<Rightarrow> connect_failed node_id e (da_sleep a) m
                 | Inr (Inr _) \<Rightarrow>
                     (case direct_stream (da_events a) (m\<lparr>dm_stream_msgs := 0\<rparr>) of
                        (ended, m) \<Rightarrow>
                          (case ended of
                             StillOpen \<Rightarrow> m\<lparr>dm_streaming := True\<rparr>
                           | StreamClosed c \<Rightarrow> m\<lparr>dm_closed := Some c\<rparr>
                           | _ \<Rightarrow> stream_ended replay node_id ended (da_lived a) (da_sleep a) m)))))"

fun subscribe_direct ::
    "(string \<Rightarrow> bool) \<Rightarrow> bool \<Rightarrow> (router \<times> direct_attempt) list \<Rightarrow> direct_mgr \<Rightarrow> direct_mgr" where
  "subscribe_direct valid replay [] m = m"
| "subscribe_direct valid replay ((r, a) # as) m =
    (if dm_closed m \<noteq> None \<or> dm_streaming m then m
     else subscribe_direct valid replay as (direct_iteration valid replay r a m))"

section \<open>Lemmas\<close>

abbreviation streams_of :: "ip_addr \<Rightarrow> yellowstone \<Rightarrow> u64" where
  "streams_of ip y \<equiv> is_active_grpc_streams (ip_entry ip (ye_stats y))"

definition may_subscribe :: "yellowstone \<Rightarrow> ip_addr \<Rightarrow> string option \<Rightarrow> bool" where
  "may_subscribe y ip api_key \<longleftrightarrow>
     (\<exists>k. api_key = Some k \<and> validate_key (ye_keys y) k \<noteq> None) \<or> is_allowed (ye_whitelist y) ip"

lemma bind_validate: "Option.bind api_key (validate_key ks) \<noteq> None \<longleftrightarrow> (\<exists>k. api_key = Some k \<and> validate_key ks k \<noteq> None)"
  by (cases api_key) auto

lemma subscribe_admit_eq:
  "subscribe_admit show_u64 (Some ip) api_key y =
    (if \<not> may_subscribe y ip api_key
     then (Inl \<lparr>sta_code = PermissionDenied, sta_message = ''Unauthorized''\<rparr>, y)
     else if streams_of ip y \<ge> max_streams_per_ip
     then (Inl \<lparr>sta_code = ResourceExhausted,
                sta_message = ''Too many concurrent gRPC streams ('' @ show_u64 (streams_of ip y)
                  @ ''), max '' @ show_u64 max_streams_per_ip\<rparr>,
           y\<lparr>ye_stats := snd (get_or_create ip (ye_stats y))\<rparr>)
     else (Inr ip,
           y\<lparr>ye_stats := modify_ip ip (\<lambda>x. x\<lparr>is_total_grpc_requests := is_total_grpc_requests x + 1\<rparr>)
                (snd (get_or_create ip (ye_stats y)))\<rparr>))"
proof -
  have a: "(Option.bind api_key (validate_key (ye_keys y)) = None \<and> \<not> is_allowed (ye_whitelist y) ip)
      \<longleftrightarrow> \<not> may_subscribe y ip api_key"
    using bind_validate [of api_key "ye_keys y"] by (auto simp: may_subscribe_def)
  show ?thesis
    unfolding subscribe_admit_def extract_client_ip_def option.case sum.case Let_def not_not a
    by (simp only: case_prod_unfold ip_entry_def)
qed

lemma admit_spec:
  assumes "subscribe_admit show_u64 remote api_key y = (res, y')"
  shows "res = Inr ip \<Longrightarrow> remote = Some ip \<and> may_subscribe y ip api_key \<and> streams_of ip y < max_streams_per_ip"
    and "remote = Some ip \<Longrightarrow> \<not> may_subscribe y ip api_key \<Longrightarrow>
      res = Inl \<lparr>sta_code = PermissionDenied, sta_message = ''Unauthorized''\<rparr> \<and> y' = y"
    and "streams_of i y' = streams_of i y"
    and "ye_keys y' = ye_keys y \<and> ye_whitelist y' = ye_whitelist y \<and> ye_router y' = ye_router y"
proof -
  have none: "remote = None \<Longrightarrow> y' = y \<and> (\<exists>e. res = Inl e)"
    using assms by (simp add: subscribe_admit_def extract_client_ip_def) blast
  show "res = Inr ip \<Longrightarrow> remote = Some ip \<and> may_subscribe y ip api_key \<and> streams_of ip y < max_streams_per_ip"
    using assms none by (cases remote) (auto simp: subscribe_admit_eq not_le split: if_splits)
  show "remote = Some ip \<Longrightarrow> \<not> may_subscribe y ip api_key \<Longrightarrow>
      res = Inl \<lparr>sta_code = PermissionDenied, sta_message = ''Unauthorized''\<rparr> \<and> y' = y"
    using assms by (simp add: subscribe_admit_eq)
  show "streams_of i y' = streams_of i y"
    using assms none by (cases remote) (auto simp: subscribe_admit_eq split: if_splits)
  show "ye_keys y' = ye_keys y \<and> ye_whitelist y' = ye_whitelist y \<and> ye_router y' = ye_router y"
    using assms none by (cases remote) (auto simp: subscribe_admit_eq split: if_splits)
qed

lemma start_stream_count: "streams_of i (start_stream ip y) = streams_of i y + (if i = ip then 1 else 0)"
proof -
  have "ip_entry i (st\<lparr>st_subscribe_supervisor_alive := n\<rparr>) = ip_entry i st" for st n
    by (simp add: ip_entry_eq)
  then show ?thesis by (simp add: start_stream_def Let_def)
qed

lemma route_spec:
  assumes "subscribe_route decode show_ip show_u64 show_status ip first y = (res, y')"
  shows "streams_of i y' = streams_of i y + (if i = ip \<and> \<not> (\<exists>e. res = Refused e) then 1 else 0)"
    and "res = Muxed filters label \<Longrightarrow> \<exists>req. first = Some (Inr req) \<and> filters = from_request decode req
      \<and> \<not> needs_direct_connection filters \<and> has_mux_subscriptions filters"
    and "first = Some (Inr req) \<Longrightarrow> needs_direct_connection (from_request decode req) \<Longrightarrow> \<exists>label. res = Direct req label"
  using assms
  by (auto simp: subscribe_route_def start_stream_count Let_def split: option.splits sum.splits if_splits)

section \<open>Properties\<close>


definition example_yellowstone :: yellowstone where
  "example_yellowstone =
    \<lparr>ye_router = example_router, ye_pool = [], ye_whitelist = new_whitelist {V4 1}, ye_keys = [],
     ye_stats = new_stats 0, ye_replay_on_reconnect = True, ye_stream_seq = 1\<rparr>"


text \<open>The limit is read before the first request is awaited and raised after it, so two calls that
  overlap there both pass at 499 and leave the client with 501 streams.\<close>

lemma stream_limit_race:
  assumes "streams_of ip y = 499" "is_allowed (ye_whitelist y) ip"
  shows "\<exists>y1 y2 y3 y4 r3 r4.
      subscribe_admit show_u64 (Some ip) None y = (Inr ip, y1)
    \<and> subscribe_admit show_u64 (Some ip) None y1 = (Inr ip, y2)
    \<and> subscribe_route decode show_ip show_u64 show_status ip (Some (Inr req)) y2 = (r3, y3)
    \<and> subscribe_route decode show_ip show_u64 show_status ip (Some (Inr req)) y3 = (r4, y4)
    \<and> streams_of ip y4 = 501"
proof -
  have admit: "\<exists>y'. subscribe_admit show_u64 (Some ip) None z = (Inr ip, y')"
    if "streams_of ip z = 499" "is_allowed (ye_whitelist z) ip" for z
    using that by (simp add: subscribe_admit_eq may_subscribe_def max_streams_per_ip_def word_le_nat_alt)
  obtain y1 where y1: "subscribe_admit show_u64 (Some ip) None y = (Inr ip, y1)" using admit assms by blast
  obtain y2 where y2: "subscribe_admit show_u64 (Some ip) None y1 = (Inr ip, y2)"
    using admit [of y1] admit_spec(3,4) [OF y1] assms by auto
  obtain r3 y3 where r3: "subscribe_route decode show_ip show_u64 show_status ip (Some (Inr req)) y2 = (r3, y3)"
    by (meson surj_pair)
  obtain r4 y4 where r4: "subscribe_route decode show_ip show_u64 show_status ip (Some (Inr req)) y3 = (r4, y4)"
    by (meson surj_pair)
  have "\<not> (\<exists>e. r3 = Refused e)" "\<not> (\<exists>e. r4 = Refused e)"
    using r3 r4 by (auto simp: subscribe_route_def Let_def split: if_splits)
  then have "streams_of ip y4 = 501"
    using assms(1) by (simp add: route_spec(1) [OF r4] route_spec(1) [OF r3] admit_spec(3) [OF y2] admit_spec(3) [OF y1])
  with y1 y2 r3 r4 show ?thesis by blast
qed

text \<open>No access control on the unary methods: their result does not depend on the whitelist or on the
  keys at all.\<close>

lemma unary_calls_unauthenticated:
  "unary_call opening upstream (y\<lparr>ye_whitelist := w, ye_keys := ks\<rparr>) req = unary_call opening upstream y req"
  by (simp add: unary_call_def)

text \<open>A node that asks for its token refuses them all, although \<open>inject_token\<close> would have attached it; and the
  node is given the client's metadata, the key it authenticates with included.\<close>

lemma unary_call_as_is:
  "pick_grpc_node (ye_router y) = Some node \<Longrightarrow> opening (ne_config node) = Inr () \<Longrightarrow>
    unary_call opening upstream y req = upstream (nc_id (ne_config node)) req"
  by (simp add: unary_call_def get_upstream_def)

lemma unary_calls_lack_token:
  assumes "pick_grpc_node (ye_router y) = Some node" "opening (ne_config node) = Inr ()"
    and "x_token = nc_grpc_x_token (ne_config node)" "x_token \<noteq> []" "valid x_token"
    and "map_of (rq_metadata req) ''x-token'' = None"
    and "\<And>nid rq. map_of (rq_metadata rq) ''x-token'' \<noteq> Some x_token \<Longrightarrow> upstream nid rq = Inl refusal"
  shows "unary_call opening upstream y req = Inl refusal"
    and "map_of (rq_metadata (inject_token valid req x_token)) ''x-token'' = Some x_token"
proof -
  show "unary_call opening upstream y req = Inl refusal"
    using assms(1,2,6,7) by (simp add: unary_call_as_is [where node = node])
  have "map_of (filter (\<lambda>(k', _). k' \<noteq> k) md) k = None" for k :: string and md :: "(string \<times> string) list"
    by (induction md) auto
  then show "map_of (rq_metadata (inject_token valid req x_token)) ''x-token'' = Some x_token"
    using assms(4,5) by (simp add: inject_token_def insert_metadata_def map_add_def)
qed

section \<open>Direct stream lemmas\<close>

text \<open>The invariant of the manager: forwarded messages are counted, the replay slot is one it has seen,
  every slot it delivered is at most its last slot, and the backoff stays between one and ten seconds.\<close>

definition slot_of :: "subscribe_update \<Rightarrow> u64 option" where
  "slot_of u = (case up_oneof u of Some (USlot s) \<Rightarrow> Some (su_slot s) | _ \<Rightarrow> None)"

definition mgr_ok :: "direct_mgr \<Rightarrow> bool" where
  "mgr_ok m \<longleftrightarrow> dm_total_forwarded m = of_nat (length (dm_delivered m))
     \<and> (\<forall>x. dm_replay_from m = Some x \<longrightarrow> 0 < x \<and> x \<le> dm_last_slot m)
     \<and> (\<forall>u \<in> set (dm_delivered m). \<forall>sl. slot_of u = Some sl \<longrightarrow> sl \<le> dm_last_slot m)
     \<and> 1000 \<le> dm_backoff m \<and> dm_backoff m \<le> 10000"

lemma note_slot_frame [simp]:
  "dm_delivered (note_slot u m) = dm_delivered m" "dm_total_forwarded (note_slot u m) = dm_total_forwarded m"
  "dm_replay_from (note_slot u m) = dm_replay_from m" "dm_backoff (note_slot u m) = dm_backoff m"
  "dm_closed (note_slot u m) = dm_closed m" "dm_latest_req (note_slot u m) = dm_latest_req m"
  "dm_client_open (note_slot u m) = dm_client_open m" "dm_subscribed (note_slot u m) = dm_subscribed m"
  "dm_streaming (note_slot u m) = dm_streaming m"
  by (simp_all add: note_slot_def split: option.splits update_oneof.splits)

lemma note_slot_last:
  "dm_last_slot m \<le> dm_last_slot (note_slot u m)" "slot_of u = Some sl \<Longrightarrow> sl \<le> dm_last_slot (note_slot u m)"
  by (auto simp: note_slot_def slot_of_def split: option.splits update_oneof.splits)

lemma mgr_ok_forward:
  assumes "mgr_ok m"
  shows "mgr_ok (note_slot u (m\<lparr>dm_stream_msgs := n\<rparr>))"
    and "mgr_ok ((note_slot u (m\<lparr>dm_stream_msgs := n\<rparr>))
      \<lparr>dm_delivered := dm_delivered m @ [u], dm_total_forwarded := dm_total_forwarded m + 1\<rparr>)"
  using assms note_slot_last [where u = u and m = "m\<lparr>dm_stream_msgs := n\<rparr>"]
  by (auto simp: mgr_ok_def intro: order_trans)

lemma mgr_ok_frame [simp]:
  "mgr_ok (m\<lparr>dm_attempts := n\<rparr>) = mgr_ok m" "mgr_ok (m\<lparr>dm_stream_msgs := n\<rparr>) = mgr_ok m"
  "mgr_ok (m\<lparr>dm_pool := p\<rparr>) = mgr_ok m" "mgr_ok (m\<lparr>dm_closed := c\<rparr>) = mgr_ok m"
  "mgr_ok (m\<lparr>dm_streaming := b\<rparr>) = mgr_ok m" "mgr_ok (m\<lparr>dm_subscribed := rs\<rparr>) = mgr_ok m"
  "mgr_ok (m\<lparr>dm_latest_req := q\<rparr>) = mgr_ok m" "mgr_ok (m\<lparr>dm_client_open := b\<rparr>) = mgr_ok m"
  "mgr_ok (m\<lparr>dm_upstream := us\<rparr>) = mgr_ok m"
  by (simp_all add: mgr_ok_def)

lemma direct_stream_ok:
  "mgr_ok m \<Longrightarrow> mgr_ok (snd (direct_stream es m)) \<and> dm_closed (snd (direct_stream es m)) = dm_closed m"
proof (induction es m rule: direct_stream.induct)
  case (4 msg ok es m)
  then show ?case by (cases "dm_client_open m"; cases "sr_ping msg = None"; cases ok) (simp_all add: Let_def)
next
  case (5 msg room es m)
  then show ?case using mgr_ok_forward [OF "5.prems", of msg] by (cases room) (simp_all add: Let_def)
qed simp_all

text \<open>The client stays: nothing interrupts the manager.\<close>

definition quiet_event :: "direct_event \<Rightarrow> bool" where
  "quiet_event ev \<longleftrightarrow> (case ev of Interrupt _ \<Rightarrow> False | FromUpstream _ room \<Rightarrow> room = None | _ \<Rightarrow> True)"

definition client_present :: "direct_attempt \<Rightarrow> bool" where
  "client_present a \<longleftrightarrow> (\<forall>c. da_connect a \<noteq> Inl c) \<and> da_sleep a = None \<and> list_all quiet_event (da_events a)"

lemma quiet_stream_not_closed:
  "list_all quiet_event es \<Longrightarrow> fst (direct_stream es m) \<noteq> StreamClosed c"
proof (induction es m rule: direct_stream.induct)
  case (4 msg ok es m)
  then show ?case by (cases "dm_client_open m"; cases "sr_ping msg = None"; cases ok) (simp_all add: Let_def)
qed (simp_all add: quiet_event_def Let_def)

lemma sleep_backoff_ok: "mgr_ok m \<Longrightarrow> mgr_ok (sleep_backoff i m)"
  by (auto simp: mgr_ok_def sleep_backoff_def split: option.splits)

lemma begin_attempt_ok [simp]: "mgr_ok (begin_attempt valid nc m) = mgr_ok m" "dm_closed (begin_attempt valid nc m) = dm_closed m"
  by (simp_all add: begin_attempt_def)

lemma connect_failed_ok: "mgr_ok m \<Longrightarrow> mgr_ok (connect_failed node_id e i m)"
  unfolding connect_failed_def Let_def by (intro sleep_backoff_ok) (simp add: mgr_ok_def)

lemma stream_ended_ok: "mgr_ok m \<Longrightarrow> mgr_ok (stream_ended replay node_id ended lived i m)"
  unfolding stream_ended_def Let_def
  by (intro sleep_backoff_ok) (simp add: mgr_ok_def direct_replay_def Let_def)

lemma failed_open:
  "dm_closed m = None \<Longrightarrow> dm_closed (connect_failed node_id e None m) = None"
  "dm_closed m = None \<Longrightarrow> dm_closed (stream_ended replay node_id ended lived None m) = None"
  by (simp_all add: connect_failed_def stream_ended_def sleep_backoff_def Let_def)

lemma direct_iteration_ok:
  assumes "mgr_ok m"
  shows "mgr_ok (direct_iteration valid replay r a m)"
proof -
  have "mgr_ok (snd (direct_stream (da_events a) (n\<lparr>dm_stream_msgs := 0\<rparr>)))" if "mgr_ok n" for n
    using direct_stream_ok [of "n\<lparr>dm_stream_msgs := 0\<rparr>"] that by simp
  then show ?thesis
    using assms unfolding direct_iteration_def Let_def
    by (auto simp: connect_failed_ok stream_ended_ok case_prod_unfold
        split: option.split sum.split stream_end.split)
qed

lemma direct_iteration_open:
  assumes "client_present a" "dm_closed m = None" "mgr_ok m"
  shows "dm_closed (direct_iteration valid replay r a m) = None"
proof -
  have "dm_closed (snd (direct_stream (da_events a) (n\<lparr>dm_stream_msgs := 0\<rparr>))) = None"
    if "mgr_ok n" "dm_closed n = None" for n
    using direct_stream_ok [of "n\<lparr>dm_stream_msgs := 0\<rparr>"] that by simp
  moreover have "fst (direct_stream (da_events a) n) \<noteq> StreamClosed c" for n c
    using assms(1) by (simp add: client_present_def quiet_stream_not_closed)
  ultimately show ?thesis
    using assms unfolding direct_iteration_def Let_def client_present_def
    by (auto simp: failed_open case_prod_unfold split: option.split sum.split stream_end.split)
qed

text \<open>Property C20. A direct stream outlives its upstream: as long as the client is there, no sequence of
  connection failures, rejected replays, stream errors and upstream ends closes the client's stream;
  throughout, what was forwarded is counted, a planned replay starts at a slot already seen and no
  later than the last one, and the reconnect delay stays between one and ten seconds.\<close>

theorem direct_stream_survives:
  assumes "\<forall>(r, a) \<in> set as. client_present a"
  shows "dm_closed (subscribe_direct valid replay as (new_direct_mgr pool req)) = None
    \<and> mgr_ok (subscribe_direct valid replay as (new_direct_mgr pool req))"
proof -
  have "dm_closed (subscribe_direct valid replay as m) = None \<and> mgr_ok (subscribe_direct valid replay as m)"
    if "dm_closed m = None" "mgr_ok m" for m
    using assms that
    by (induction valid replay as m rule: subscribe_direct.induct)
      (auto simp: direct_iteration_ok direct_iteration_open)
  moreover have "dm_closed (new_direct_mgr pool req) = None" "mgr_ok (new_direct_mgr pool req)"
    by (simp_all add: new_direct_mgr_def mgr_ok_def)
  ultimately show ?thesis by blast
qed

definition example_direct :: direct_attempt where
  "example_direct = \<lparr>da_connect = Inr (Inr ()),
     da_events = [FromUpstream (Some (Inr (example_slot 9))) None, FromUpstream None None], da_lived = 1, da_sleep = None\<rparr>"

theorem direct_stream_survives_witness:
  "dm_closed (subscribe_direct (\<lambda>_. True) True [(example_router, example_direct), (example_router, example_direct)]
     (new_direct_mgr [] example_request)) = None"
  using direct_stream_survives [of "[(example_router, example_direct), (example_router, example_direct)]"]
  by (simp add: client_present_def example_direct_def quiet_event_def)

text \<open>After a rejected replay the manager means to resume live, but the request it sends is the client's
  own, with the slot the client once asked for.\<close>

lemma live_resume_keeps_client_slot:
  "dm_replay_from m = None \<Longrightarrow> sr_from_slot (upstream_request m) = sr_from_slot (dm_latest_req m)"
  by (simp add: upstream_request_def)

end
