(* ===== verification/Arpc.thy ===== *)
theory Arpc
  imports Forwarder Rate_Limiter Stats Access_Store Supervisor
begin

text \<open>
  The aRPC services, v1 and v2 (\<open>src/src/proxy/grpc_arpc.rs\<close>): admission of a call and the upstream
  connection. The forwarder tasks of a stream are in \<open>Forwarder\<close>. The messages are opaque; URL
  parsing, connecting and the upstream's replies are inputs.
\<close>

section \<open>Admission\<close>

record 'l arpc_proxy =
  ap_router :: router
  ap_whitelist :: ip_whitelist
  ap_keys :: api_key_store
  ap_limiter :: "'l rate_limiter"
  ap_stats :: stats

definition arpc_extract_client_ip :: "ip_addr option \<Rightarrow> grpc_status + ip_addr" where
  "arpc_extract_client_ip remote_addr =
    (case remote_addr of
       Some ip \<Rightarrow> Inr ip
     | None \<Rightarrow> Inl \<lparr>sta_code = Internal, sta_message = ''Cannot determine client IP''\<rparr>)"

definition arpc_check_access ::
    "'l governor \<Rightarrow> instant \<Rightarrow> ip_addr \<Rightarrow> string option \<Rightarrow> 'l arpc_proxy \<Rightarrow> (grpc_status + unit) \<times> 'l arpc_proxy" where
  "arpc_check_access gov now ip api_key s =
    (if Option.bind api_key (validate_key (ap_keys s)) \<noteq> None then (Inr (), s)
     else if \<not> is_allowed (ap_whitelist s) ip
     then (Inl \<lparr>sta_code = PermissionDenied, sta_message = ''Unauthorized''\<rparr>, s)
     else
       (case check_rps gov now ip (ap_limiter s) of
          (verdict, limiter) \<Rightarrow>
            let s = s\<lparr>ap_limiter := limiter\<rparr>
            in (case verdict of
                  Inl _ \<Rightarrow> (Inl \<lparr>sta_code = ResourceExhausted, sta_message = ''Rate limit exceeded''\<rparr>,
                            s\<lparr>ap_stats := record_rate_limited ip (ap_stats s)\<rparr>)
                | Inr _ \<Rightarrow> (Inr (), s))))"

text \<open>\<open>get_upstream\<close> of both proxies, which differ in the service name of their messages: \<open>from_shared\<close>
  parses the URL, \<open>connect\<close> opens the channel.\<close>

record upstream_env =
  ue_from_shared :: "string \<Rightarrow> string + unit"
  ue_connect :: "string \<Rightarrow> string + unit"

definition arpc_get_upstream :: "string \<Rightarrow> upstream_env \<Rightarrow> router \<Rightarrow> grpc_status + string" where
  "arpc_get_upstream service env r =
    (case pick_grpc_node r of
       None \<Rightarrow> Inl \<lparr>sta_code = Unavailable, sta_message = ''No healthy '' @ service @ '' nodes''\<rparr>
     | Some node \<Rightarrow>
         let url = nc_arpc_url (ne_config node)
         in (case ue_from_shared env url of
               Inl e \<Rightarrow> Inl \<lparr>sta_code = Internal, sta_message = ''Invalid URL: '' @ e\<rparr>
             | Inr _ \<Rightarrow>
                 (case ue_connect env url of
                    Inl e \<Rightarrow> Inl \<lparr>sta_code = Unavailable, sta_message = service @ '' connect failed: '' @ e\<rparr>
                  | Inr _ \<Rightarrow> Inr (nc_id (ne_config node)))))"

text \<open>\<open>SupervisorBuilder::start\<close> on the client's aRPC counter, as in theory \<open>Supervisor\<close>.\<close>

definition start_arpc_stream :: "ip_addr \<Rightarrow> 'l arpc_proxy \<Rightarrow> 'l arpc_proxy" where
  "start_arpc_stream ip s =
    (let st = modify_ip ip (\<lambda>x. x\<lparr>is_active_arpc_streams := is_active_arpc_streams x + 1\<rparr>) (ap_stats s)
     in s\<lparr>ap_stats := st\<lparr>st_subscribe_supervisor_alive := st_subscribe_supervisor_alive st + 1\<rparr>\<rparr>)"

text \<open>An opened stream: the node that serves it and the number of forwarder tasks it starts with.\<close>

record arpc_stream =
  as_node :: string
  as_forwarders :: nat

definition arpc_subscribe ::
    "'l governor \<Rightarrow> instant \<Rightarrow> upstream_env \<Rightarrow> ip_addr option \<Rightarrow> string option \<Rightarrow> (string \<Rightarrow> grpc_status + unit)
     \<Rightarrow> 'l arpc_proxy \<Rightarrow> (grpc_status + arpc_stream) \<times> 'l arpc_proxy" where
  "arpc_subscribe gov now env remote_addr api_key upstream_reply s =
    (case arpc_extract_client_ip remote_addr of
       Inl e \<Rightarrow> (Inl e, s)
     | Inr ip \<Rightarrow>
         (case arpc_check_access gov now ip api_key s of
            (Inl e, s) \<Rightarrow> (Inl e, s)
          | (Inr _, s) \<Rightarrow>
              let s = s\<lparr>ap_stats := snd (get_or_create ip (ap_stats s))\<rparr>;
                  s = s\<lparr>ap_stats := modify_ip ip
                        (\<lambda>x. x\<lparr>is_total_arpc_requests := is_total_arpc_requests x + 1\<rparr>) (ap_stats s)\<rparr>
              in (case arpc_get_upstream ''aRPC'' env (ap_router s) of
                    Inl e \<Rightarrow> (Inl e, s)
                  | Inr node_id \<Rightarrow>
                      (case upstream_reply node_id of
                         Inl e \<Rightarrow> (Inl e, s)
                       | Inr _ \<Rightarrow> (Inr \<lparr>as_node = node_id, as_forwarders = 2\<rparr>, start_arpc_stream ip s)))))"

text \<open>The three v2 methods differ in the message types and, for \<open>subscribe_transactions\<close>, in the second
  forwarder; none of them counts the request.\<close>

definition arpc_v2_call ::
    "nat \<Rightarrow> 'l governor \<Rightarrow> instant \<Rightarrow> upstream_env \<Rightarrow> ip_addr option \<Rightarrow> string option \<Rightarrow> (string \<Rightarrow> grpc_status + unit)
     \<Rightarrow> 'l arpc_proxy \<Rightarrow> (grpc_status + arpc_stream) \<times> 'l arpc_proxy" where
  "arpc_v2_call forwarders gov now env remote_addr api_key upstream_reply s =
    (case arpc_extract_client_ip remote_addr of
       Inl e \<Rightarrow> (Inl e, s)
     | Inr ip \<Rightarrow>
         (case arpc_check_access gov now ip api_key s of
            (Inl e, s) \<Rightarrow> (Inl e, s)
          | (Inr _, s) \<Rightarrow>
              let s = s\<lparr>ap_stats := snd (get_or_create ip (ap_stats s))\<rparr>
              in (case arpc_get_upstream ''aRPC v2'' env (ap_router s) of
                    Inl e \<Rightarrow> (Inl e, s)
                  | Inr node_id \<Rightarrow>
                      (case upstream_reply node_id of
                         Inl e \<Rightarrow> (Inl e, s)
                       | Inr _ \<Rightarrow> (Inr \<lparr>as_node = node_id, as_forwarders = forwarders\<rparr>, start_arpc_stream ip s)))))"

definition subscribe_entries ::
    "'l governor \<Rightarrow> instant \<Rightarrow> upstream_env \<Rightarrow> ip_addr option \<Rightarrow> string option \<Rightarrow> (string \<Rightarrow> grpc_status + unit)
     \<Rightarrow> 'l arpc_proxy \<Rightarrow> (grpc_status + arpc_stream) \<times> 'l arpc_proxy" where
  "subscribe_entries = arpc_v2_call 1"

definition subscribe_transactions ::
    "'l governor \<Rightarrow> instant \<Rightarrow> upstream_env \<Rightarrow> ip_addr option \<Rightarrow> string option \<Rightarrow> (string \<Rightarrow> grpc_status + unit)
     \<Rightarrow> 'l arpc_proxy \<Rightarrow> (grpc_status + arpc_stream) \<times> 'l arpc_proxy" where
  "subscribe_transactions = arpc_v2_call 2"

definition subscribe_slots ::
    "'l governor \<Rightarrow> instant \<Rightarrow> upstream_env \<Rightarrow> ip_addr option \<Rightarrow> string option \<Rightarrow> (string \<Rightarrow> grpc_status + unit)
     \<Rightarrow> 'l arpc_proxy \<Rightarrow> (grpc_status + arpc_stream) \<times> 'l arpc_proxy" where
  "subscribe_slots = arpc_v2_call 1"

section \<open>Lemmas on admission\<close>

definition arpc_authorised :: "'l arpc_proxy \<Rightarrow> ip_addr \<Rightarrow> string option \<Rightarrow> bool" where
  "arpc_authorised s ip api_key \<longleftrightarrow> is_allowed (ap_whitelist s) ip \<or> (\<exists>k. api_key = Some k \<and> validate_key (ap_keys s) k \<noteq> None)"

definition arpc_streams :: "'l arpc_proxy \<Rightarrow> ip_addr \<Rightarrow> u64" where
  "arpc_streams s ip = is_active_arpc_streams (ip_entry ip (ap_stats s))"

definition arpc_requests :: "'l arpc_proxy \<Rightarrow> ip_addr \<Rightarrow> u64" where
  "arpc_requests s ip = is_total_arpc_requests (ip_entry ip (ap_stats s))"

text \<open>The effect of a call on the counters: \<open>counted\<close> requests, and a stream if one was opened.\<close>

definition arpc_effect :: "u64 \<Rightarrow> bool \<Rightarrow> ip_addr \<Rightarrow> 'l arpc_proxy \<Rightarrow> 'l arpc_proxy \<Rightarrow> bool" where
  "arpc_effect counted opened ip s s' \<longleftrightarrow>
     (\<forall>i. arpc_streams s' i = arpc_streams s i + (if i = ip \<and> opened then 1 else 0)
        \<and> arpc_requests s' i = arpc_requests s i + (if i = ip then counted else 0))
     \<and> st_subscribe_supervisor_alive (ap_stats s')
         = st_subscribe_supervisor_alive (ap_stats s) + (if opened then 1 else 0)"

lemmas arpc_effect_defs = arpc_effect_def arpc_streams_def arpc_requests_def start_arpc_stream_def
  record_rate_limited_def frame_simps Let_def

lemma access_spec:
  assumes "arpc_check_access gov now ip api_key s = (res, s')"
  shows "arpc_effect 0 False i s s' \<and> ap_router s' = ap_router s"
    and "res = Inr () \<Longrightarrow> arpc_authorised s ip api_key"
    and "res = Inr () \<Longrightarrow> \<not> (\<exists>k. api_key = Some k \<and> validate_key (ap_keys s) k \<noteq> None) \<Longrightarrow>
      fst (check_rps gov now ip (ap_limiter s)) = Inr ()"
    and "\<not> arpc_authorised s ip api_key \<Longrightarrow>
      res = Inl \<lparr>sta_code = PermissionDenied, sta_message = ''Unauthorized''\<rparr> \<and> s' = s"
  using assms
  by (auto simp: arpc_check_access_def arpc_authorised_def arpc_effect_defs
      split: if_splits prod.splits sum.splits option.splits bind_splits)

text \<open>A call of any of the four methods, by the requests it counts.\<close>

definition arpc_outcome ::
    "u64 \<Rightarrow> 'l governor \<Rightarrow> instant \<Rightarrow> ip_addr \<Rightarrow> string option \<Rightarrow> 'l arpc_proxy
     \<Rightarrow> (grpc_status + arpc_stream) \<times> 'l arpc_proxy \<Rightarrow> bool" where
  "arpc_outcome counted gov now ip api_key s out \<longleftrightarrow>
     (case out of
        (Inr stream, s') \<Rightarrow> arpc_authorised s ip api_key \<and> arpc_effect counted True ip s s'
          \<and> (\<exists>node. pick_grpc_node (ap_router s) = Some node \<and> as_node stream = nc_id (ne_config node))
          \<and> (\<not> (\<exists>k. api_key = Some k \<and> validate_key (ap_keys s) k \<noteq> None) \<longrightarrow>
               fst (check_rps gov now ip (ap_limiter s)) = Inr ())
      | (Inl e, s') \<Rightarrow>
          arpc_effect (if fst (arpc_check_access gov now ip api_key s) = Inr () then counted else 0) False ip s s'
          \<and> (\<not> arpc_authorised s ip api_key \<longrightarrow>
               e = \<lparr>sta_code = PermissionDenied, sta_message = ''Unauthorized''\<rparr> \<and> s' = s))"

lemma get_upstream_node:
  "arpc_get_upstream service env r = Inr n \<Longrightarrow> \<exists>node. pick_grpc_node r = Some node \<and> n = nc_id (ne_config node)"
  by (auto simp: arpc_get_upstream_def Let_def split: option.splits sum.splits)

lemma arpc_subscribe_outcome:
  "arpc_outcome 1 gov now ip api_key s (arpc_subscribe gov now env (Some ip) api_key reply s)"
proof -
  obtain res s1 where a: "arpc_check_access gov now ip api_key s = (res, s1)" by fastforce
  note access = access_spec [OF a]
  show ?thesis
  proof (cases res)
    case (Inl e)
    with access(1) [of ip] access(4) show ?thesis
      by (simp add: arpc_outcome_def arpc_subscribe_def arpc_extract_client_ip_def a)
  next
    case (Inr u)
    with access(1) [of ip] access(2,3,4) show ?thesis
      by (auto simp: arpc_outcome_def arpc_subscribe_def arpc_extract_client_ip_def a arpc_effect_defs
          dest: get_upstream_node split: sum.splits)
  qed
qed

lemma arpc_v2_outcome:
  "arpc_outcome 0 gov now ip api_key s (arpc_v2_call forwarders gov now env (Some ip) api_key reply s)"
proof -
  obtain res s1 where a: "arpc_check_access gov now ip api_key s = (res, s1)" by fastforce
  note access = access_spec [OF a]
  show ?thesis
  proof (cases res)
    case (Inl e)
    with access(1) [of ip] access(4) show ?thesis
      by (simp add: arpc_outcome_def arpc_v2_call_def arpc_extract_client_ip_def a)
  next
    case (Inr u)
    with access(1) [of ip] access(2,3,4) show ?thesis
      by (auto simp: arpc_outcome_def arpc_v2_call_def arpc_extract_client_ip_def a arpc_effect_defs
          dest: get_upstream_node split: sum.splits)
  qed
qed

section \<open>Properties\<close>

text \<open>Property C30. aRPC admission, for all four methods: a stream is opened only for a client that is
  whitelisted or holds a valid key, through the node the router picks, and, without a key, only if
  the request limiter admits it; it raises that client's stream counter and the supervisor gauge by
  one. A refused call opens no stream, and an unauthorised one changes nothing at all. Requests that
  pass the access check are counted by v1 only.\<close>

theorem arpc_admission:
  "arpc_outcome 1 gov now ip api_key s (arpc_subscribe gov now env (Some ip) api_key reply s)
   \<and> arpc_outcome 0 gov now ip api_key s (subscribe_entries gov now env (Some ip) api_key reply s)
   \<and> arpc_outcome 0 gov now ip api_key s (subscribe_transactions gov now env (Some ip) api_key reply s)
   \<and> arpc_outcome 0 gov now ip api_key s (subscribe_slots gov now env (Some ip) api_key reply s)"
  unfolding subscribe_entries_def subscribe_transactions_def subscribe_slots_def
  by (intro conjI arpc_subscribe_outcome arpc_v2_outcome)

end
