(* ===== verification/Tasks.thy ===== *)
theory Tasks
  imports Yellowstone Arpc
begin

text \<open>
  The request handlers cut at their suspension points. A handler that awaits is suspended there while
  other tasks run, so each segment between two awaits is one atomic step on the shared state; what
  the handler keeps across an await is its task. Every handler is proved to be the composition of its
  segments, so what is shown of the segments in any interleaving is shown of the handlers of
  \<open>Http_Rpc\<close>, \<open>Yellowstone\<close> and \<open>Arpc\<close>. The answer of an upstream is fixed when the call is
  made and taken up when the await ends.
\<close>

section \<open>JSON-RPC requests\<close>

text \<open>Up to the await of the body: \<open>None\<close> is the answer 403, otherwise whether a key authenticated.\<close>

definition begin_request :: "ip_addr \<Rightarrow> string option \<Rightarrow> 'l proxy \<Rightarrow> bool option" where
  "begin_request client_ip api_key s =
    (let authed_by_key = Option.bind api_key (validate_key (px_keys s))
     in if \<not> is_allowed (px_whitelist s) client_ip \<and> authed_by_key = None then None
        else Some (authed_by_key \<noteq> None))"

text \<open>From the body to the await of the upstream's answer; \<open>Inl\<close> is an answer of the proxy itself.\<close>

definition admit_request ::
    "'l governor \<Rightarrow> http_env \<Rightarrow> ip_addr \<Rightarrow> string option \<Rightarrow> bool \<Rightarrow> unit + bytes \<Rightarrow> 'l proxy
     \<Rightarrow> (response + (string + response) \<times> node_entry list) \<times> 'l proxy" where
  "admit_request gov env client_ip api_key authed_by_key body s =
    (case read_body body of
       Inl _ \<Rightarrow> (Inl (json_error_response 400 ''Request body too large''), s)
     | Inr body_bytes \<Rightarrow>
         let method = classify_rpc body_bytes;
             is_send_tx = (method = SendTransaction \<or> method = SendTransactionBatch)
         in (case rate_limit_request gov (he_now env) client_ip api_key authed_by_key is_send_tx (px_limiter s) of
               (Inl is_tps, limiter) \<Rightarrow>
                 let s = s\<lparr>px_limiter := limiter\<rparr>;
                     s = (if api_key = None
                          then s\<lparr>px_stats := record_rate_limited client_ip (px_stats s)\<rparr> else s)
                 in (Inl (json_error_response 429 (rate_limit_message is_tps)), s)
             | (Inr _, limiter) \<Rightarrow>
                 let s = s\<lparr>px_limiter := limiter\<rparr>;
                     s = s\<lparr>px_stats := record_rpc (he_now_ms env) client_ip is_send_tx (px_stats s)\<rparr>;
                     s = s\<lparr>px_stats := adjust_rpc_conns client_ip 1 (px_stats s)\<rparr>
                 in (case route_method (he_client env) (he_arrive env) method (px_router s) body_bytes of
                       (out, router) \<Rightarrow> (Inr out, s\<lparr>px_router := router\<rparr>))))"

text \<open>When the upstream has answered.\<close>

definition finish_request :: "ip_addr \<Rightarrow> string + response \<Rightarrow> 'l proxy \<Rightarrow> response \<times> 'l proxy" where
  "finish_request client_ip result s =
    (let (resp, s) =
           (case result of
              Inr resp \<Rightarrow> (resp, s)
            | Inl e \<Rightarrow> (json_error_response 502 e, s\<lparr>px_stats := record_error client_ip (px_stats s)\<rparr>))
     in (resp, s\<lparr>px_stats := adjust_rpc_conns client_ip (- 1) (px_stats s)\<rparr>))"

lemma handle_request_segments:
  "handle_request gov env ip api_key body s =
    (case begin_request ip api_key s of
       None \<Rightarrow> ((json_error_response 403 ''Unauthorized'', []), s)
     | Some authed \<Rightarrow>
         (case admit_request gov env ip api_key authed body s of
            (Inl resp, s) \<Rightarrow> ((resp, []), s)
          | (Inr (result, contacted), s) \<Rightarrow>
              (case finish_request ip result s of (resp, s) \<Rightarrow> ((resp, contacted), s))))"
  by (auto simp: handle_request_def begin_request_def admit_request_def finish_request_def Let_def
      split: sum.splits prod.splits)

lemma admit_request_routed:
  assumes "read_body body = Inr b"
    and "fst (rate_limit_request gov (he_now env) ip key authed (send_tx_body b) (px_limiter s)) = Inr ()"
  shows "\<exists>r n s'. admit_request gov env ip key authed body s = (Inr (r, n), s')"
proof -
  from assms(2) obtain l where "rate_limit_request gov (he_now env) ip key authed
      (classify_rpc b = SendTransaction \<or> classify_rpc b = SendTransactionBatch) (px_limiter s) = (Inr (), l)"
    unfolding send_tx_body_def by (metis prod.collapse)
  moreover obtain r n r' where "route_method (he_client env) (he_arrive env) (classify_rpc b) (px_router s) b = ((r, n), r')"
    by (metis prod.collapse)
  ultimately show ?thesis using assms(1) by (simp add: admit_request_def Let_def)
qed

section \<open>WebSocket connections\<close>

definition ws_begin :: "'l governor \<Rightarrow> instant \<Rightarrow> ip_addr \<Rightarrow> 'l proxy \<Rightarrow> (ws_end + node_entry) \<times> 'l proxy" where
  "ws_begin gov now client_ip s =
    (if \<not> is_allowed (px_whitelist s) client_ip then (Inl WsRejected, s)
     else
       (case check_rps gov now client_ip (px_limiter s) of
          (Inl _, limiter) \<Rightarrow>
            (Inl WsRateLimited, s\<lparr>px_limiter := limiter, px_stats := record_rate_limited client_ip (px_stats s)\<rparr>)
        | (Inr _, limiter) \<Rightarrow>
            let s = s\<lparr>px_limiter := limiter\<rparr>
            in (case pick_ws_node (px_router s) of None \<Rightarrow> (Inl WsNoNode, s) | Some node \<Rightarrow> (Inr node, s))))"

text \<open>After the client's handshake, on a message of the upstream, and at the end of the copying.\<close>

definition ws_accepted :: "ip_addr \<Rightarrow> 'l proxy \<Rightarrow> 'l proxy" where
  "ws_accepted client_ip s = s\<lparr>px_stats := adjust_ws_conns client_ip 1 (px_stats s)\<rparr>"

definition ws_inspect :: "ip_addr \<Rightarrow> unit + ws_message \<Rightarrow> 'l proxy \<Rightarrow> 'l proxy" where
  "ws_inspect client_ip m s = s\<lparr>px_stats := count_ws_message client_ip m (px_stats s)\<rparr>"

definition ws_finished :: "ip_addr \<Rightarrow> 'l proxy \<Rightarrow> 'l proxy" where
  "ws_finished client_ip s = s\<lparr>px_stats := adjust_ws_conns client_ip (- 1) (px_stats s)\<rparr>"

lemma ws_inspect_all:
  "fold (ws_inspect ip) ms s = s\<lparr>px_stats := fold (count_ws_message ip) ms (px_stats s)\<rparr>"
  by (induction ms arbitrary: s) (simp_all add: ws_inspect_def)

lemma handle_connection_segments:
  "handle_connection gov now peers ip s =
    (case ws_begin gov now ip s of
       (Inl e, s) \<Rightarrow> (e, s)
     | (Inr node, s) \<Rightarrow>
         if \<not> wp_accept_ok peers then (WsAcceptFailed, s)
         else if \<not> wp_connect_ok peers then (WsConnectFailed, ws_accepted ip s)
         else (WsFinished, ws_finished ip (fold (ws_inspect ip) (wp_upstream peers) (ws_accepted ip s))))"
  by (simp add: handle_connection_def ws_begin_def ws_accepted_def ws_finished_def ws_inspect_all Let_def
      split: sum.splits prod.splits option.splits)

section \<open>aRPC calls\<close>

text \<open>The messages of the two service versions; only v1 counts the request.\<close>

datatype arpc_version = ArpcV1 | ArpcV2

fun arpc_service :: "arpc_version \<Rightarrow> string" where
  "arpc_service ArpcV1 = ''aRPC''"
| "arpc_service ArpcV2 = ''aRPC v2''"

definition arpc_begin ::
    "arpc_version \<Rightarrow> 'l governor \<Rightarrow> instant \<Rightarrow> upstream_env \<Rightarrow> ip_addr option \<Rightarrow> string option \<Rightarrow> 'l arpc_proxy
     \<Rightarrow> (grpc_status + ip_addr \<times> (grpc_status + string)) \<times> 'l arpc_proxy" where
  "arpc_begin v gov now env remote_addr api_key s =
    (case arpc_extract_client_ip remote_addr of
       Inl e \<Rightarrow> (Inl e, s)
     | Inr ip \<Rightarrow>
         (case arpc_check_access gov now ip api_key s of
            (Inl e, s) \<Rightarrow> (Inl e, s)
          | (Inr _, s) \<Rightarrow>
              let s = s\<lparr>ap_stats := snd (get_or_create ip (ap_stats s))\<rparr>;
                  s = (if v = ArpcV1
                       then s\<lparr>ap_stats := modify_ip ip
                              (\<lambda>x. x\<lparr>is_total_arpc_requests := is_total_arpc_requests x + 1\<rparr>) (ap_stats s)\<rparr>
                       else s)
              in (Inr (ip, arpc_get_upstream (arpc_service v) env (ap_router s)), s)))"

definition arpc_finish ::
    "nat \<Rightarrow> ip_addr \<Rightarrow> grpc_status + string \<Rightarrow> (string \<Rightarrow> grpc_status + unit) \<Rightarrow> 'l arpc_proxy
     \<Rightarrow> (grpc_status + arpc_stream) \<times> 'l arpc_proxy" where
  "arpc_finish forwarders ip upstream reply s =
    (case upstream of
       Inl e \<Rightarrow> (Inl e, s)
     | Inr node_id \<Rightarrow>
         (case reply node_id of
            Inl e \<Rightarrow> (Inl e, s)
          | Inr _ \<Rightarrow> (Inr \<lparr>as_node = node_id, as_forwarders = forwarders\<rparr>, start_arpc_stream ip s)))"

definition arpc_call ::
    "arpc_version \<Rightarrow> nat \<Rightarrow> 'l governor \<Rightarrow> instant \<Rightarrow> upstream_env \<Rightarrow> ip_addr option \<Rightarrow> string option
     \<Rightarrow> (string \<Rightarrow> grpc_status + unit) \<Rightarrow> 'l arpc_proxy \<Rightarrow> (grpc_status + arpc_stream) \<times> 'l arpc_proxy" where
  "arpc_call v forwarders gov now env remote_addr api_key reply s =
    (case arpc_begin v gov now env remote_addr api_key s of
       (Inl e, s) \<Rightarrow> (Inl e, s)
     | (Inr (ip, upstream), s) \<Rightarrow> arpc_finish forwarders ip upstream reply s)"

lemma arpc_call_segments:
  "arpc_subscribe gov now env remote api_key reply s = arpc_call ArpcV1 2 gov now env remote api_key reply s"
  "subscribe_entries gov now env remote api_key reply s = arpc_call ArpcV2 1 gov now env remote api_key reply s"
  "subscribe_transactions gov now env remote api_key reply s = arpc_call ArpcV2 2 gov now env remote api_key reply s"
  "subscribe_slots gov now env remote api_key reply s = arpc_call ArpcV2 1 gov now env remote api_key reply s"
  by (auto simp: arpc_subscribe_def subscribe_entries_def subscribe_transactions_def subscribe_slots_def
      arpc_v2_call_def arpc_call_def arpc_begin_def arpc_finish_def Let_def split: sum.splits prod.splits)

section \<open>The end of a supervised stream\<close>

text \<open>The last steps of the supervisor task, on the counters the stream was started with; \<open>remaining\<close> is
  the number of forwarders that had to be aborted.\<close>

definition supervisor_exit :: "nat \<Rightarrow> stats \<Rightarrow> stats" where
  "supervisor_exit remaining st =
    st\<lparr>st_forwarder_aborted_total := st_forwarder_aborted_total st + of_nat remaining,
       st_subscribe_supervisor_alive := st_subscribe_supervisor_alive st - 1,
       st_subscribe_supervisor_drops_total := st_subscribe_supervisor_drops_total st + 1\<rparr>"

definition end_grpc_stream :: "ip_addr \<Rightarrow> nat \<Rightarrow> stats \<Rightarrow> stats" where
  "end_grpc_stream ip remaining st =
    supervisor_exit remaining
      (modify_ip ip (\<lambda>x. x\<lparr>is_active_grpc_streams := is_active_grpc_streams x - 1\<rparr>) st)"

definition end_arpc_stream :: "ip_addr \<Rightarrow> nat \<Rightarrow> stats \<Rightarrow> stats" where
  "end_arpc_stream ip remaining st =
    supervisor_exit remaining
      (modify_ip ip (\<lambda>x. x\<lparr>is_active_arpc_streams := is_active_arpc_streams x - 1\<rparr>) st)"

section \<open>Tasks\<close>

datatype task =
    HttpBody ip_addr "string option" bool \<comment> \<open>authenticated, the body is awaited\<close>
  | HttpRouting ip_addr "string + response" \<comment> \<open>admitted, the upstream is awaited\<close>
  | WsAccepting ip_addr \<comment> \<open>admitted, the client's handshake is awaited\<close>
  | WsConnecting ip_addr \<comment> \<open>the upstream's handshake is awaited\<close>
  | WsOpen ip_addr
  | GrpcWaiting ip_addr \<comment> \<open>admitted, the first request is awaited\<close>
  | GrpcOpen ip_addr
  | ArpcConnecting ip_addr "grpc_status + string" \<comment> \<open>admitted, the upstream is awaited\<close>
  | ArpcOpen ip_addr

fun task_ip :: "task \<Rightarrow> ip_addr" where
  "task_ip (HttpBody ip key authed) = ip"
| "task_ip (HttpRouting ip result) = ip"
| "task_ip (WsAccepting ip) = ip"
| "task_ip (WsConnecting ip) = ip"
| "task_ip (WsOpen ip) = ip"
| "task_ip (GrpcWaiting ip) = ip"
| "task_ip (GrpcOpen ip) = ip"
| "task_ip (ArpcConnecting ip upstream) = ip"
| "task_ip (ArpcOpen ip) = ip"

text \<open>The gauge of the statistics a task holds up while it exists.\<close>

datatype gauge = RpcConns | WsConns | GrpcStreams | ArpcStreams

fun held :: "task \<Rightarrow> gauge option" where
  "held (HttpRouting ip result) = Some RpcConns"
| "held (WsConnecting ip) = Some WsConns"
| "held (WsOpen ip) = Some WsConns"
| "held (GrpcOpen ip) = Some GrpcStreams"
| "held (ArpcOpen ip) = Some ArpcStreams"
| "held _ = None"

fun gauge_value :: "gauge \<Rightarrow> ip_stats \<Rightarrow> u64" where
  "gauge_value RpcConns x = is_active_rpc_conns x"
| "gauge_value WsConns x = is_active_ws_conns x"
| "gauge_value GrpcStreams x = is_active_grpc_streams x"
| "gauge_value ArpcStreams x = is_active_arpc_streams x"

definition supervised :: "task \<Rightarrow> bool" where
  "supervised t \<longleftrightarrow> held t = Some GrpcStreams \<or> held t = Some ArpcStreams"

text \<open>What a set of tasks adds up to.\<close>

definition held_count :: "gauge \<Rightarrow> ip_addr \<Rightarrow> task multiset \<Rightarrow> nat" where
  "held_count g ip ts = size (filter_mset (\<lambda>t. held t = Some g \<and> task_ip t = ip) ts)"

definition alive_count :: "task multiset \<Rightarrow> nat" where
  "alive_count ts = size (filter_mset supervised ts)"

lemma held_count_simps [simp]:
  "held_count g ip {#} = 0"
  "held_count g ip (add_mset t ts) = held_count g ip ts + (if held t = Some g \<and> task_ip t = ip then 1 else 0)"
  "held_count g ip (ts + us) = held_count g ip ts + held_count g ip us"
  by (simp_all add: held_count_def)

lemma alive_count_simps [simp]:
  "alive_count {#} = 0"
  "alive_count (add_mset t ts) = alive_count ts + (if supervised t then 1 else 0)"
  by (simp_all add: alive_count_def)

text \<open>The statistics agree with the tasks that exist and those that were dropped with a gauge held up.\<close>

definition gauges_exact :: "task multiset \<Rightarrow> task multiset \<Rightarrow> stats \<Rightarrow> bool" where
  "gauges_exact ts lost st \<longleftrightarrow>
     (\<forall>g ip. gauge_value g (ip_entry ip st) = of_nat (held_count g ip (ts + lost)))
     \<and> st_subscribe_supervisor_alive st = of_nat (alive_count ts)"

text \<open>How much a segment moves the gauges: from those of the task before to those of the task after.\<close>

definition weight :: "task option \<Rightarrow> gauge \<Rightarrow> ip_addr \<Rightarrow> u64" where
  "weight t g ip = (case t of Some t \<Rightarrow> if held t = Some g \<and> task_ip t = ip then 1 else 0 | None \<Rightarrow> 0)"

definition alive_weight :: "task option \<Rightarrow> u64" where
  "alive_weight t = (case t of Some t \<Rightarrow> if supervised t then 1 else 0 | None \<Rightarrow> 0)"

definition moves_gauges :: "task option \<Rightarrow> task option \<Rightarrow> stats \<Rightarrow> stats \<Rightarrow> bool" where
  "moves_gauges old new st st' \<longleftrightarrow>
     (\<forall>g ip. gauge_value g (ip_entry ip st') + weight old g ip = gauge_value g (ip_entry ip st) + weight new g ip)
     \<and> st_subscribe_supervisor_alive st' + alive_weight old = st_subscribe_supervisor_alive st + alive_weight new"

definition task_set :: "task option \<Rightarrow> task multiset" where
  "task_set t = (case t of Some t \<Rightarrow> {#t#} | None \<Rightarrow> {#})"

lemma gauges_moved:
  assumes "gauges_exact (ts + task_set old) lost st" "moves_gauges old new st st'"
  shows "gauges_exact (ts + task_set new) lost st'"
proof -
  have cancel: "x = y" if "x + w = z + v" "z = y' + w" "y = y' + v" for x y z w v y' :: u64
    using that by (simp add: algebra_simps)
  have c: "of_nat (held_count g ip (ts + task_set t + lost)) = of_nat (held_count g ip (ts + lost)) + weight t g ip"
    "of_nat (alive_count (ts + task_set t)) = of_nat (alive_count ts) + alive_weight t" for t g ip
    by (simp_all add: task_set_def weight_def alive_weight_def split: option.splits)
  show ?thesis
    using assms unfolding gauges_exact_def moves_gauges_def c by (metis cancel)
qed

lemma gauges_lost:
  assumes "gauges_exact (add_mset t ts) lost st" "\<not> supervised t"
  shows "gauges_exact ts (add_mset t lost) st"
  using assms by (auto simp: gauges_exact_def)

section \<open>What the segments change\<close>

text \<open>A segment moves the gauges from those of its task before to those of its task after and keeps the
  accounting of the statistics; the limiters see at most one check.\<close>

definition stats_moved :: "task option \<Rightarrow> task option \<Rightarrow> stats \<Rightarrow> stats \<Rightarrow> bool" where
  "stats_moved old new st st' \<longleftrightarrow> moves_gauges old new st st' \<and> (\<forall>\<delta>. stats_inv \<delta> st \<longrightarrow> stats_inv \<delta> st')"

definition limiter_moved :: "'l governor \<Rightarrow> 'l rate_limiter \<Rightarrow> 'l rate_limiter \<Rightarrow> bool" where
  "limiter_moved gov l l' \<longleftrightarrow> l' = l \<or> (\<exists>call. l' = limiter_step gov call l)"

lemma all_gauges: "(\<forall>g. P g) \<longleftrightarrow> P RpcConns \<and> P WsConns \<and> P GrpcStreams \<and> P ArpcStreams"
  by (metis gauge.exhaust)

lemmas gauge_simps = moves_gauges_def all_gauges weight_def alive_weight_def supervised_def frame_simps

lemma limiter_moved_intros [simp]:
  "limiter_moved gov l l"
  "limiter_moved gov l (snd (check gov now ip tx l))" "limiter_moved gov l (snd (check_rps gov now ip l))"
  "limiter_moved gov l (snd (check_by_key gov now k tx l))"
  unfolding limiter_moved_def by (simp, metis limiter_step.simps(1), metis limiter_step.simps(2), metis limiter_step.simps(3))

lemma stats_moved_same: "weight old = weight new \<Longrightarrow> alive_weight old = alive_weight new \<Longrightarrow> stats_moved old new st st"
  by (simp add: stats_moved_def moves_gauges_def)

lemma stats_moved_trans:
  assumes "stats_moved a b st st1" "stats_moved b c st1 st2"
  shows "stats_moved a c st st2"
proof -
  have chain: "z + u = x + w" if "y + u = x + v" "z + v = y + w" for x y z u v w :: u64
    using arg_cong2 [OF that, of "(+)"] by (simp add: algebra_simps)
  show ?thesis using assms unfolding stats_moved_def moves_gauges_def by (blast intro: chain)
qed

text \<open>The recordings that leave all gauges alone.\<close>

lemma stats_moved_record:
  "stats_moved None None st (record_rpc now ip tx st)"
  "stats_moved None None st (record_rate_limited ip st)"
  "stats_moved None None st (record_error ip st)"
  "stats_moved None None st (count_ws_message ip m st)"
  "stats_moved None None st (snd (get_or_create ip st))"
  "stats_moved None None st (modify_ip ip (\<lambda>x. x\<lparr>is_total_grpc_requests := is_total_grpc_requests x + 1\<rparr>) st)"
  "stats_moved None None st (modify_ip ip (\<lambda>x. x\<lparr>is_total_arpc_requests := is_total_arpc_requests x + 1\<rparr>) st)"
proof -
  show "stats_moved None None st (count_ws_message ip m st)"
    by (cases m) (auto simp: stats_moved_def gauge_simps stats_inv_modify)
  have "st_subscribe_supervisor_alive (record_rpc now ip tx st) = st_subscribe_supervisor_alive st"
    by (simp add: record_rpc_def frame_simps Let_def)
  then show "stats_moved None None st (record_rpc now ip tx st)"
    by (simp add: stats_moved_def gauge_simps record_rpc_entry stats_inv_record_rpc)
qed (auto simp: stats_moved_def gauge_simps stats_inv_intros stats_inv_modify
    record_rate_limited_def record_error_def)

text \<open>And those that move one.\<close>

lemma stats_moved_gauge:
  "stats_moved None (Some (HttpRouting ip r)) st (adjust_rpc_conns ip 1 st)"
  "stats_moved (Some (HttpRouting ip r)) None st (adjust_rpc_conns ip (- 1) st)"
  "stats_moved None (Some (WsConnecting ip)) st (adjust_ws_conns ip 1 st)"
  "stats_moved (Some (WsOpen ip)) None st (adjust_ws_conns ip (- 1) st)"
  "stats_moved (Some (GrpcOpen ip)) None st (end_grpc_stream ip n st)"
  "stats_moved (Some (ArpcOpen ip)) None st (end_arpc_stream ip n st)"
  by (auto simp: stats_moved_def gauge_simps adjust_rpc_conns_def adjust_ws_conns_def end_grpc_stream_def
      end_arpc_stream_def supervisor_exit_def intro!: stats_inv_modify)

lemma stats_moved_start:
  "stats_moved None (Some (GrpcOpen ip)) (ye_stats s) (ye_stats (start_stream ip s))"
  "stats_moved None (Some (ArpcOpen ip)) (ap_stats t) (ap_stats (start_arpc_stream ip t))"
  by (auto simp: stats_moved_def gauge_simps start_stream_def start_arpc_stream_def Let_def intro!: stats_inv_modify)

lemma idle_weights [simp]:
  "weight (Some (HttpBody ip key a)) = weight None" "weight (Some (WsAccepting ip)) = weight None"
  "weight (Some (GrpcWaiting ip)) = weight None" "weight (Some (ArpcConnecting ip u)) = weight None"
  "weight (Some (WsOpen ip)) = weight (Some (WsConnecting ip))"
  "alive_weight (Some (HttpBody ip key a)) = alive_weight None" "alive_weight (Some (WsAccepting ip)) = alive_weight None"
  "alive_weight (Some (GrpcWaiting ip)) = alive_weight None" "alive_weight (Some (ArpcConnecting ip u)) = alive_weight None"
  "alive_weight (Some (WsOpen ip)) = alive_weight (Some (WsConnecting ip))"
  by (simp_all add: weight_def alive_weight_def supervised_def fun_eq_iff)

lemma stats_moved_idle [simp]:
  "stats_moved (Some (HttpBody ip key a)) new st st' = stats_moved None new st st'"
  "stats_moved (Some (GrpcWaiting ip)) new st st' = stats_moved None new st st'"
  "stats_moved (Some (ArpcConnecting ip u)) new st st' = stats_moved None new st st'"
  "stats_moved (Some (WsAccepting ip)) new st st' = stats_moved None new st st'"
  "stats_moved old (Some (HttpBody ip key a)) st st' = stats_moved old None st st'"
  "stats_moved old (Some (GrpcWaiting ip)) st st' = stats_moved old None st st'"
  "stats_moved old (Some (ArpcConnecting ip u)) st st' = stats_moved old None st st'"
  "stats_moved old (Some (WsAccepting ip)) st st' = stats_moved old None st st'"
  by (simp_all add: stats_moved_def moves_gauges_def)

text \<open>The effect of each segment on the front end's state.\<close>

definition proxy_effect :: "'l governor \<Rightarrow> task option \<Rightarrow> task option \<Rightarrow> 'l proxy \<Rightarrow> 'l proxy \<Rightarrow> bool" where
  "proxy_effect gov old new s s' \<longleftrightarrow> rt_nodes (px_router s') = rt_nodes (px_router s)
     \<and> limiter_moved gov (px_limiter s) (px_limiter s') \<and> stats_moved old new (px_stats s) (px_stats s')"

lemma route_method_nodes: "rt_nodes (snd (route_method cl arrive m r b)) = rt_nodes r"
  by (cases m) (simp_all add: route_method_def forward_heavy_rpc_def Let_def)

lemma rate_limit_request_moved: "limiter_moved gov l (snd (rate_limit_request gov now ip key a tx l))"
  by (simp add: rate_limit_request_def split: option.splits)

lemma admit_request_effect:
  assumes "admit_request gov env ip key a body s = (out, s')"
  shows "proxy_effect gov None (case out of Inl _ \<Rightarrow> None | Inr (r, _) \<Rightarrow> Some (HttpRouting ip r)) s s'"
proof (cases "read_body body")
  case (Inl u)
  with assms have "out = Inl (json_error_response 400 ''Request body too large'')" "s' = s"
    by (simp_all add: admit_request_def)
  then show ?thesis by (simp add: proxy_effect_def stats_moved_same)
next
  case (Inr b)
  let ?tx = "classify_rpc b = SendTransaction \<or> classify_rpc b = SendTransactionBatch"
  let ?l = "rate_limit_request gov (he_now env) ip key a ?tx (px_limiter s)"
  let ?r = "route_method (he_client env) (he_arrive env) (classify_rpc b) (px_router s) b"
  have l: "limiter_moved gov (px_limiter s) (snd ?l)" by (rule rate_limit_request_moved)
  show ?thesis
  proof (cases "fst ?l")
    case (Inl is_tps)
    with assms Inr have "\<exists>resp. out = Inl resp" "px_router s' = px_router s" "px_limiter s' = snd ?l"
      "px_stats s' = (if key = None then record_rate_limited ip (px_stats s) else px_stats s)"
      by (auto simp: admit_request_def Let_def split: prod.splits sum.splits)
    with l stats_moved_record(2) show ?thesis by (auto simp: proxy_effect_def stats_moved_same)
  next
    case (Inr u)
    with assms \<open>read_body body = Inr b\<close> have "out = Inr (fst ?r)" "px_router s' = snd ?r" "px_limiter s' = snd ?l"
      "px_stats s' = adjust_rpc_conns ip 1 (record_rpc (he_now_ms env) ip ?tx (px_stats s))"
      by (auto simp: admit_request_def Let_def split: prod.splits sum.splits)
    with l stats_moved_trans [OF stats_moved_record(1) stats_moved_gauge(1)] show ?thesis
      by (auto simp: proxy_effect_def route_method_nodes split: prod.splits)
  qed
qed

lemma finish_request_effect:
  "finish_request ip result s = (resp, s') \<Longrightarrow> proxy_effect gov (Some (HttpRouting ip result)) None s s'"
proof -
  have err: "stats_moved (Some (HttpRouting ip r)) (Some (HttpRouting ip r)) st (record_error ip st)" for r st
    using stats_moved_record(3) [of st ip] by (simp add: stats_moved_def moves_gauges_def)
  assume "finish_request ip result s = (resp, s')"
  then show ?thesis
    using stats_moved_gauge(2) stats_moved_trans [OF err stats_moved_gauge(2)]
    by (auto simp: finish_request_def proxy_effect_def Let_def split: sum.splits)
qed

lemma ws_begin_effect: "ws_begin gov now ip s = (out, s') \<Longrightarrow> proxy_effect gov None None s s'"
proof -
  assume "ws_begin gov now ip s = (out, s')"
  then have "s' = s \<or> px_router s' = px_router s \<and> px_limiter s' = snd (check_rps gov now ip (px_limiter s))
      \<and> px_stats s' \<in> {px_stats s, record_rate_limited ip (px_stats s)}"
    by (auto simp: ws_begin_def Let_def split: if_splits prod.splits sum.splits option.splits)
  then show ?thesis using stats_moved_record(2) by (auto simp: proxy_effect_def stats_moved_same)
qed

lemma ws_message_effect:
  "proxy_effect gov None (Some (WsConnecting ip)) s (ws_accepted ip s)"
  "proxy_effect gov (Some (WsOpen ip)) (Some (WsOpen ip)) s (ws_inspect ip m s)"
  "proxy_effect gov (Some (WsOpen ip)) None s (ws_finished ip s)"
proof -
  have "stats_moved (Some (WsOpen ip)) (Some (WsOpen ip)) st (count_ws_message ip m st)" for st
    using stats_moved_record(4) [of st ip m] by (simp add: stats_moved_def moves_gauges_def)
  then show "proxy_effect gov (Some (WsOpen ip)) (Some (WsOpen ip)) s (ws_inspect ip m s)"
    by (simp add: proxy_effect_def ws_inspect_def)
qed (simp_all add: proxy_effect_def ws_accepted_def ws_finished_def stats_moved_gauge)

lemma subscribe_admit_effect:
  assumes "subscribe_admit show_u64 remote key s = (out, s')"
  shows "stats_moved None None (ye_stats s) (ye_stats s') \<and> (\<forall>ip. out = Inr ip \<longrightarrow> remote = Some ip)"
proof -
  have "ye_stats s' = ye_stats s \<or> (\<exists>ip. ye_stats s' = snd (get_or_create ip (ye_stats s)) \<or>
      ye_stats s' = modify_ip ip (\<lambda>x. x\<lparr>is_total_grpc_requests := is_total_grpc_requests x + 1\<rparr>)
        (snd (get_or_create ip (ye_stats s))))"
    and "out = Inr ip \<Longrightarrow> remote = Some ip" for ip
    using assms
    by (auto simp: subscribe_admit_def extract_client_ip_def Let_def case_prod_unfold split: option.splits if_splits)
  then show ?thesis
    using stats_moved_record(5) stats_moved_trans [OF stats_moved_record(5) stats_moved_record(6)]
    by (auto simp: stats_moved_same)
qed

lemma subscribe_route_effect:
  assumes "subscribe_route decode show_ip show_u64 show_status ip first s = (res, s')"
  shows "stats_moved None (if \<exists>e. res = Refused e then None else Some (GrpcOpen ip)) (ye_stats s) (ye_stats s')"
proof -
  have "(\<exists>e. res = Refused e) \<and> s' = s \<or>
      \<not> (\<exists>e. res = Refused e) \<and> (\<exists>n. s' = start_stream ip (s\<lparr>ye_stream_seq := n\<rparr>))"
    using assms by (auto simp: subscribe_route_def Let_def split: option.splits sum.splits if_splits)
  then show ?thesis
    using stats_moved_start(1) [of ip "s\<lparr>ye_stream_seq := n\<rparr>" for n] by (auto simp: stats_moved_same)
qed

lemma arpc_begin_effect:
  assumes "arpc_begin v gov now env remote key s = (out, s')"
  shows "limiter_moved gov (ap_limiter s) (ap_limiter s') \<and> stats_moved None None (ap_stats s) (ap_stats s')
    \<and> (\<forall>ip u. out = Inr (ip, u) \<longrightarrow> remote = Some ip)"
proof (cases remote)
  case None
  with assms show ?thesis by (auto simp: arpc_begin_def arpc_extract_client_ip_def stats_moved_same)
next
  case (Some ip)
  obtain res s1 where a: "arpc_check_access gov now ip key s = (res, s1)" by fastforce
  have "limiter_moved gov (ap_limiter s) (ap_limiter s1)" "ap_stats s1 \<in> {ap_stats s, record_rate_limited ip (ap_stats s)}"
    using a by (auto simp: arpc_check_access_def Let_def split: if_splits prod.splits sum.splits) (metis limiter_moved_intros(3) snd_conv)+
  moreover from this(2) have m: "stats_moved None None (ap_stats s) (ap_stats s1)"
    using stats_moved_record(2) by (auto simp: stats_moved_same)
  moreover have "stats_moved None None (ap_stats s1) (snd (get_or_create ip (ap_stats s1)))"
    "stats_moved None None (ap_stats s1) (modify_ip ip (\<lambda>x. x\<lparr>is_total_arpc_requests := is_total_arpc_requests x + 1\<rparr>)
       (snd (get_or_create ip (ap_stats s1))))"
    using stats_moved_record(5) stats_moved_trans [OF stats_moved_record(5) stats_moved_record(7)] by blast+
  ultimately show ?thesis
    using assms stats_moved_trans [OF m] unfolding arpc_begin_def arpc_extract_client_ip_def Some
    by (cases res) (auto simp: a Let_def split: if_splits)
qed

lemma arpc_finish_effect:
  "arpc_finish n ip u reply s = (out, s') \<Longrightarrow> ap_limiter s' = ap_limiter s
    \<and> stats_moved None (if isl out then None else Some (ArpcOpen ip)) (ap_stats s) (ap_stats s')"
  using stats_moved_start(2) [of ip s]
  by (auto simp: arpc_finish_def stats_moved_same start_arpc_stream_def Let_def split: sum.splits)

end
