(* ===== verification/Quotas.thy ===== *)
theory Quotas
  imports Rate_Limiter
begin

text \<open>
  What the limiter tables of \<open>Rate_Limiter\<close> enforce: every limiter in a table started from the quota
  that the configuration gives its address or key and was only charged since. The invariant holds of
  the tables a start or a reload builds and is kept by every check, so in the composed system the
  limits in force are always those of the current configuration.
\<close>

section \<open>Quotas of the configuration\<close>

definition default_limiters :: "'l governor \<Rightarrow> config \<Rightarrow> 'l ip_limiters" where
  "default_limiters gov c =
    (let rl = cfg_rate_limits c
     in make_limiters gov (rl_default_rps rl) (rl_default_tps rl) (rl_default_burst_rps rl) (rl_default_burst_tps rl))"

text \<open>The fresh limiters an address may have: those of one of its whitelist entries (the whitelist may name it
  twice), the default ones if it has no entry. Likewise for a key and its entries that are not revoked.\<close>

definition fresh_for_ip :: "'l governor \<Rightarrow> config \<Rightarrow> ip_addr \<Rightarrow> 'l ip_limiters set" where
  "fresh_for_ip gov c ip =
    (if ip \<in> whitelist_set c then whitelist_limiters gov c ` {e \<in> set (cfg_whitelist c). we_ip e = ip}
     else {default_limiters gov c})"

definition live_keys :: "config \<Rightarrow> api_key_entry list" where
  "live_keys c = filter (\<lambda>e. \<not> ak_revoked e) (cfg_api_keys c)"

definition fresh_for_key :: "'l governor \<Rightarrow> config \<Rightarrow> string \<Rightarrow> 'l ip_limiters set" where
  "fresh_for_key gov c k =
    (if k \<in> ak_key ` set (live_keys c) then key_limiters gov c ` {e \<in> set (live_keys c). ak_key e = k}
     else {default_limiters gov c})"

text \<open>A limiter after any number of checks.\<close>

definition charged :: "'l governor \<Rightarrow> 'l \<Rightarrow> 'l \<Rightarrow> bool" where
  "charged gov = (\<lambda>a b. \<exists>now. b = snd (gov_check gov now a))\<^sup>*\<^sup>*"

definition charged_pair :: "'l governor \<Rightarrow> 'l ip_limiters \<Rightarrow> 'l ip_limiters \<Rightarrow> bool" where
  "charged_pair gov f l \<longleftrightarrow> charged gov (il_rps f) (il_rps l) \<and> charged gov (il_tps f) (il_tps l)"

definition limits_in_force :: "'l governor \<Rightarrow> config \<Rightarrow> 'l rate_limiter \<Rightarrow> bool" where
  "limits_in_force gov c s \<longleftrightarrow>
     lm_config s = c
     \<and> distinct_keys (lm_ip_limiters s) \<and> distinct_keys (lm_key_limiters s)
     \<and> whitelist_set c \<subseteq> dom (map_of (lm_ip_limiters s))
     \<and> ak_key ` set (live_keys c) \<subseteq> dom (map_of (lm_key_limiters s))
     \<and> (\<forall>ip l. map_of (lm_ip_limiters s) ip = Some l \<longrightarrow> (\<exists>f \<in> fresh_for_ip gov c ip. charged_pair gov f l))
     \<and> (\<forall>k l. map_of (lm_key_limiters s) k = Some l \<longrightarrow> (\<exists>f \<in> fresh_for_key gov c k. charged_pair gov f l))
     \<and> limiters_bounded s"

section \<open>Lemmas\<close>

lemma charged_refl [simp]: "charged gov l l"
  by (simp add: charged_def)

lemma charged_check: "charged gov a b \<Longrightarrow> charged gov a (snd (gov_check gov now b))"
  unfolding charged_def by (rule rtranclp.rtrancl_into_rtrancl) auto

lemma charged_pair_refl [simp]: "charged_pair gov l l"
  by (simp add: charged_pair_def)

lemma charged_consume: "charged_pair gov f l \<Longrightarrow> charged_pair gov f (snd (consume gov now tx l))"
  by (auto simp: charged_pair_def consume_def Let_def split: prod.splits)
    (metis charged_check snd_conv)+

lemma charged_rps: "charged_pair gov f l \<Longrightarrow> charged_pair gov f (l\<lparr>il_rps := snd (gov_check gov now (il_rps l))\<rparr>)"
  by (simp add: charged_pair_def charged_check)

text \<open>The limiters created on demand are among the fresh ones.\<close>

lemma on_demand_fresh:
  "make_limiters gov (get_ip_rps c ip) (get_ip_tps c ip) (get_ip_burst_rps c ip) (get_ip_burst_tps c ip)
     \<in> fresh_for_ip gov c ip"
proof (cases "find (\<lambda>w. we_ip w = ip) (cfg_whitelist c)")
  case None
  then have "ip \<notin> whitelist_set c" by (auto simp: find_None_iff whitelist_set_def)
  with None show ?thesis
    by (simp add: fresh_for_ip_def default_limiters_def get_ip_rps_def get_ip_tps_def get_ip_burst_rps_def
        get_ip_burst_tps_def Let_def)
next
  case (Some e)
  then have "e \<in> set (cfg_whitelist c)" "we_ip e = ip" by (auto simp: find_Some_iff)
  moreover from this have "ip \<in> whitelist_set c" by (auto simp: whitelist_set_def)
  ultimately show ?thesis
    using Some by (auto simp: fresh_for_ip_def whitelist_limiters_def get_ip_rps_def get_ip_tps_def
        get_ip_burst_rps_def get_ip_burst_tps_def intro!: image_eqI [of _ _ e])
qed

lemma insert_all_from:
  "map_of (insert_all k v xs []) i = Some y \<Longrightarrow> \<exists>x \<in> set xs. k x = i \<and> y = v x"
  by (auto simp: alist_simps find_map_of map_add_def find_Some_iff rev_nth split: option.splits)

lemma limits_new: "limits_in_force gov c (new_rate_limiter gov c)"
proof -
  let ?n = "new_rate_limiter gov c"
  have ips: "dom (map_of (lm_ip_limiters ?n)) = whitelist_set c"
    by (simp add: new_rate_limiter_def dom_insert_all whitelist_set_def)
  have keys: "dom (map_of (lm_key_limiters ?n)) = ak_key ` set (live_keys c)"
    by (simp add: new_rate_limiter_def dom_insert_all live_keys_def)
  have "\<exists>f \<in> fresh_for_ip gov c ip. charged_pair gov f l" if "map_of (lm_ip_limiters ?n) ip = Some l" for ip l
  proof -
    from that obtain e where "e \<in> set (cfg_whitelist c)" "we_ip e = ip" "l = whitelist_limiters gov c e"
      unfolding new_rate_limiter_def rate_limiter.simps by (blast dest: insert_all_from)
    then show ?thesis by (auto simp: fresh_for_ip_def whitelist_set_def intro!: bexI [of _ e])
  qed
  moreover have "\<exists>f \<in> fresh_for_key gov c k. charged_pair gov f l" if "map_of (lm_key_limiters ?n) k = Some l" for k l
  proof -
    from that obtain e where "e \<in> set (live_keys c)" "ak_key e = k" "l = key_limiters gov c e"
      unfolding new_rate_limiter_def rate_limiter.simps live_keys_def by (blast dest: insert_all_from)
    then show ?thesis by (auto simp: fresh_for_key_def intro!: bexI [of _ e])
  qed
  moreover have "distinct_keys (lm_ip_limiters ?n)" "distinct_keys (lm_key_limiters ?n)" "lm_config ?n = c"
    by (simp_all add: new_rate_limiter_def distinct_insert_all)
  ultimately show ?thesis
    using ips keys bounded_new [of gov c] by (simp add: limits_in_force_def)
qed

text \<open>A check rewrites the entry of its address with one that was charged, or leaves the table.\<close>

lemma limits_put_ip:
  assumes "limits_in_force gov c s" "\<exists>f \<in> fresh_for_ip gov c ip. charged_pair gov f l"
    and "limiters_bounded (s\<lparr>lm_ip_limiters := AList.update ip l (lm_ip_limiters s)\<rparr>)"
  shows "limits_in_force gov c (s\<lparr>lm_ip_limiters := AList.update ip l (lm_ip_limiters s)\<rparr>)"
  using assms by (auto simp: limits_in_force_def alist_simps distinct_update)

lemma limits_put_key:
  assumes "limits_in_force gov c s" "\<exists>f \<in> fresh_for_key gov c k. charged_pair gov f l"
  shows "limits_in_force gov c (s\<lparr>lm_key_limiters := AList.update k l (lm_key_limiters s)\<rparr>)"
  using assms by (auto simp: limits_in_force_def limiters_bounded_def alist_simps distinct_update)

lemma get_or_create_limiters_fresh:
  assumes "limits_in_force gov c s"
  shows "\<exists>f \<in> fresh_for_ip gov c ip. charged_pair gov f (fst (get_or_create_limiters gov ip s))"
    and "\<exists>f \<in> fresh_for_key gov c k. charged_pair gov f (fst (get_or_create_key_limiters gov k s))"
proof -
  show "\<exists>f \<in> fresh_for_ip gov c ip. charged_pair gov f (fst (get_or_create_limiters gov ip s))"
  proof (cases "map_of (lm_ip_limiters s) ip")
    case None
    with assms on_demand_fresh [of gov c ip] show ?thesis
      by (simp add: get_or_create_limiters_def limits_in_force_def Let_def) (metis charged_pair_refl)
  qed (use assms in \<open>auto simp: get_or_create_limiters_def limits_in_force_def\<close>)
  show "\<exists>f \<in> fresh_for_key gov c k. charged_pair gov f (fst (get_or_create_key_limiters gov k s))"
  proof (cases "map_of (lm_key_limiters s) k")
    case None
    with assms have "k \<notin> ak_key ` set (live_keys c)" by (auto simp: limits_in_force_def)
    with None assms show ?thesis
      by (simp add: get_or_create_key_limiters_def fresh_for_key_def default_limiters_def limits_in_force_def Let_def)
  qed (use assms in \<open>auto simp: get_or_create_key_limiters_def limits_in_force_def\<close>)
qed

lemma limiter_calls:
  "snd (check gov now ip tx s) = s \<or> snd (check gov now ip tx s) =
     s\<lparr>lm_ip_limiters := AList.update ip (snd (consume gov now tx (fst (get_or_create_limiters gov ip s)))) (lm_ip_limiters s)\<rparr>"
  "snd (check_rps gov now ip s) = s \<or> (\<exists>l. l = fst (get_or_create_limiters gov ip s) \<and> snd (check_rps gov now ip s) =
     s\<lparr>lm_ip_limiters := AList.update ip (l\<lparr>il_rps := snd (gov_check gov now (il_rps l))\<rparr>) (lm_ip_limiters s)\<rparr>)"
  "snd (check_by_key gov now k tx s) =
     s\<lparr>lm_key_limiters := AList.update k (snd (consume gov now tx (fst (get_or_create_key_limiters gov k s)))) (lm_key_limiters s)\<rparr>"
  "\<exists>l. l = fst (get_or_create_key_limiters gov k s) \<and> snd (check_rps_by_key gov now k s) =
     s\<lparr>lm_key_limiters := AList.update k (l\<lparr>il_rps := snd (gov_check gov now (il_rps l))\<rparr>) (lm_key_limiters s)\<rparr>"
  by (simp_all add: limiter_defs)

lemma limits_step:
  assumes "limits_in_force gov c s"
  shows "limits_in_force gov c (limiter_step gov call s)"
proof -
  have b: "limiters_bounded (limiter_step gov call s)"
    using assms by (simp add: bounded_step limits_in_force_def)
  obtain now q where call: "call = (now, q)" by (cases call)
  note fresh = get_or_create_limiters_fresh [OF assms]
  have used: "\<exists>f \<in> F. charged_pair gov f (snd (consume gov now tx l))"
    "\<exists>f \<in> F. charged_pair gov f (l\<lparr>il_rps := snd (gov_check gov now (il_rps l))\<rparr>)"
    if "\<exists>f \<in> F. charged_pair gov f l" for F l tx
    using that charged_consume charged_rps by blast+
  show ?thesis
  proof (cases q)
    case (CCheck ip tx)
    then show ?thesis
      using limiter_calls(1) [of gov now ip tx s] assms b limits_put_ip [OF assms used(1) [OF fresh(1)]]
      by (auto simp: call)
  next
    case (CCheckRps ip)
    then show ?thesis
      using limiter_calls(2) [of gov now ip s] assms b limits_put_ip [OF assms used(2) [OF fresh(1)]]
      by (auto simp: call)
  next
    case (CCheckKey k tx)
    then show ?thesis
      using limiter_calls(3) [of gov now k tx s] limits_put_key [OF assms used(1) [OF fresh(2)]]
      by (simp add: call)
  next
    case (CCheckRpsKey k)
    then show ?thesis
      using limiter_calls(4) [of gov k s now] limits_put_key [OF assms used(2) [OF fresh(2)]]
      by (auto simp: call)
  qed
qed

end
