(* ===== verification/System.thy ===== *)
theory System
  imports Startup Tasks Quotas
begin

text \<open>
  The composed system: the process of \<open>Startup\<close> with its administration and periodic tasks, the tasks
  of all four front ends (\<open>Tasks\<close>) in flight at once, and the tasks that watch the nodes. One step is
  one segment of one task, so the properties hold however requests, streams, reloads,
  administration and probes interleave. (An administrator's request is one step; what two of them
  do when they overlap is the subject of \<open>Dashboard_Race\<close>.)
\<close>

section \<open>State\<close>

text \<open>With what a task was admitted: address, key and, as a ghost, the configuration at that time.\<close>

record permit =
  pm_ip :: ip_addr
  pm_key :: "string option"
  pm_config :: config

text \<open>\<open>sy_lost\<close> (a ghost) are tasks that ended without giving their gauge back, \<open>sy_boot\<close> (a ghost) is the
  process as it was started.\<close>

record 'l system =
  sy_process :: "'l process"
  sy_pool :: grpc_pool
  sy_stream_seq :: u64
  sy_tasks :: "(permit \<times> task) multiset"
  sy_lost :: "task multiset"
  sy_boot :: "'l process"

abbreviation sy_shared :: "'l system \<Rightarrow> 'l dashboard" where
  "sy_shared y \<equiv> pr_shared (sy_process y)"

abbreviation boot_config :: "'l system \<Rightarrow> config" where
  "boot_config y \<equiv> db_config (pr_shared (sy_boot y))"

definition boot :: "'l process \<Rightarrow> 'l system" where
  "boot p = \<lparr>sy_process = p, sy_pool = [], sy_stream_seq = 1, sy_tasks = {#}, sy_lost = {#}, sy_boot = p\<rparr>"

text \<open>The parts of the shared state each front end holds, and writing them back. The access lists are only
  read by the front ends.\<close>

definition put_shared :: "'l rate_limiter \<Rightarrow> stats \<Rightarrow> 'l system \<Rightarrow> 'l system" where
  "put_shared lims st y =
    y\<lparr>sy_process := (sy_process y)\<lparr>pr_shared := (sy_shared y)\<lparr>db_limiter := lims, db_stats := st\<rparr>\<rparr>\<rparr>"

definition http_view :: "'l system \<Rightarrow> 'l proxy" where
  "http_view y =
    \<lparr>px_router = pr_router (sy_process y), px_whitelist = db_whitelist (sy_shared y), px_keys = db_keys (sy_shared y),
     px_limiter = db_limiter (sy_shared y), px_stats = db_stats (sy_shared y)\<rparr>"

definition put_http :: "'l proxy \<Rightarrow> 'l system \<Rightarrow> 'l system" where
  "put_http s y =
    (let y = put_shared (px_limiter s) (px_stats s) y
     in y\<lparr>sy_process := (sy_process y)\<lparr>pr_router := px_router s\<rparr>\<rparr>)"

definition grpc_view :: "'l system \<Rightarrow> yellowstone" where
  "grpc_view y =
    \<lparr>ye_router = pr_router (sy_process y), ye_pool = sy_pool y, ye_whitelist = db_whitelist (sy_shared y),
     ye_keys = db_keys (sy_shared y), ye_stats = db_stats (sy_shared y),
     ye_replay_on_reconnect = gr_replay_on_reconnect (cfg_grpc (boot_config y)), ye_stream_seq = sy_stream_seq y\<rparr>"

definition put_grpc :: "yellowstone \<Rightarrow> 'l system \<Rightarrow> 'l system" where
  "put_grpc s y = (put_shared (db_limiter (sy_shared y)) (ye_stats s) y)\<lparr>sy_stream_seq := ye_stream_seq s\<rparr>"

definition arpc_view :: "'l system \<Rightarrow> 'l arpc_proxy" where
  "arpc_view y =
    \<lparr>ap_router = pr_router (sy_process y), ap_whitelist = db_whitelist (sy_shared y), ap_keys = db_keys (sy_shared y),
     ap_limiter = db_limiter (sy_shared y), ap_stats = db_stats (sy_shared y)\<rparr>"

definition put_arpc :: "'l arpc_proxy \<Rightarrow> 'l system \<Rightarrow> 'l system" where
  "put_arpc s y = put_shared (ap_limiter s) (ap_stats s) y"

section \<open>Traffic\<close>

text \<open>A request or connection of an address with a key (or none) becomes a task.\<close>

inductive arrival :: "'l governor \<Rightarrow> 'l system \<Rightarrow> ip_addr \<Rightarrow> string option \<Rightarrow> 'l system \<Rightarrow> task \<Rightarrow> bool"
  for gov y ip where
  http: "begin_request ip key (http_view y) = Some authed \<Longrightarrow> arrival gov y ip key y (HttpBody ip key authed)"
| ws: "ws_begin gov now ip (http_view y) = (Inr node, s) \<Longrightarrow> arrival gov y ip None (put_http s y) (WsAccepting ip)"
| grpc: "subscribe_admit show_u64 (Some ip) key (grpc_view y) = (Inr client, s) \<Longrightarrow>
    arrival gov y ip key (put_grpc s y) (GrpcWaiting ip)"
| arpc: "arpc_begin v gov now env (Some ip) key (arpc_view y) = (Inr (client, upstream), s) \<Longrightarrow>
    arrival gov y ip key (put_arpc s y) (ArpcConnecting ip upstream)"

text \<open>Or it is refused at once.\<close>

inductive refusal :: "'l governor \<Rightarrow> 'l system \<Rightarrow> ip_addr option \<Rightarrow> string option \<Rightarrow> 'l system \<Rightarrow> bool"
  for gov y remote where
  http: "remote = Some ip \<Longrightarrow> begin_request ip key (http_view y) = None \<Longrightarrow> refusal gov y remote key y"
| ws: "remote = Some ip \<Longrightarrow> ws_begin gov now ip (http_view y) = (Inl e, s) \<Longrightarrow> refusal gov y remote None (put_http s y)"
| grpc: "subscribe_admit show_u64 remote key (grpc_view y) = (Inl e, s) \<Longrightarrow> refusal gov y remote key (put_grpc s y)"
| arpc: "arpc_begin v gov now env remote key (arpc_view y) = (Inl e, s) \<Longrightarrow> refusal gov y remote key (put_arpc s y)"

text \<open>One segment of a task: the task afterwards, \<open>None\<close> if it has ended.\<close>

inductive progress :: "'l governor \<Rightarrow> 'l system \<Rightarrow> task \<Rightarrow> 'l system \<Rightarrow> task option \<Rightarrow> bool" for gov y where
  http_answered: "admit_request gov env ip key authed body (http_view y) = (Inl resp, s) \<Longrightarrow>
    progress gov y (HttpBody ip key authed) (put_http s y) None"
| http_routed: "admit_request gov env ip key authed body (http_view y) = (Inr (result, contacted), s) \<Longrightarrow>
    progress gov y (HttpBody ip key authed) (put_http s y) (Some (HttpRouting ip result))"
| http_done: "finish_request ip result (http_view y) = (resp, s) \<Longrightarrow>
    progress gov y (HttpRouting ip result) (put_http s y) None"
| http_gone: "progress gov y (HttpBody ip key authed) y None"
| ws_accept_failed: "progress gov y (WsAccepting ip) y None"
| ws_accept: "progress gov y (WsAccepting ip) (put_http (ws_accepted ip (http_view y)) y) (Some (WsConnecting ip))"
| ws_connect: "progress gov y (WsConnecting ip) y (Some (WsOpen ip))"
| ws_message: "progress gov y (WsOpen ip) (put_http (ws_inspect ip m (http_view y)) y) (Some (WsOpen ip))"
| ws_end: "progress gov y (WsOpen ip) (put_http (ws_finished ip (http_view y)) y) None"
| grpc_refused: "subscribe_route decode show_ip show_u64 show_status ip first (grpc_view y) = (Refused e, s) \<Longrightarrow>
    progress gov y (GrpcWaiting ip) (put_grpc s y) None"
| grpc_direct: "subscribe_route decode show_ip show_u64 show_status ip first (grpc_view y) = (Direct req label, s) \<Longrightarrow>
    progress gov y (GrpcWaiting ip) (put_grpc s y) (Some (GrpcOpen ip))"
| grpc_muxed: "subscribe_route decode show_ip show_u64 show_status ip first (grpc_view y) = (Muxed filters label, s) \<Longrightarrow>
    progress gov y (GrpcWaiting ip) (put_grpc s y) (Some (GrpcOpen ip))"
| grpc_gone: "progress gov y (GrpcWaiting ip) y None"
| grpc_end: "progress gov y (GrpcOpen ip)
    (put_shared (db_limiter (sy_shared y)) (end_grpc_stream ip remaining (db_stats (sy_shared y))) y) None"
| arpc_failed: "arpc_finish forwarders ip upstream reply (arpc_view y) = (Inl e, s) \<Longrightarrow>
    progress gov y (ArpcConnecting ip upstream) (put_arpc s y) None"
| arpc_opened: "arpc_finish forwarders ip upstream reply (arpc_view y) = (Inr stream, s) \<Longrightarrow>
    progress gov y (ArpcConnecting ip upstream) (put_arpc s y) (Some (ArpcOpen ip))"
| arpc_gone: "progress gov y (ArpcConnecting ip upstream) y None"
| arpc_end: "progress gov y (ArpcOpen ip)
    (put_shared (db_limiter (sy_shared y)) (end_arpc_stream ip remaining (db_stats (sy_shared y))) y) None"

text \<open>
  The two ways to lose a task that holds a gauge: hyper drops the handler's future when the client closes
  the connection while the upstream is awaited, and the WebSocket handler returns early when the
  upstream's handshake fails.
\<close>

fun can_be_lost :: "task \<Rightarrow> bool" where
  "can_be_lost (HttpRouting ip result) = True"
| "can_be_lost (WsConnecting ip) = True"
| "can_be_lost _ = False"

section \<open>Nodes\<close>

text \<open>The dashboard and the router hold the same node entries.\<close>

definition put_nodes :: "node_entry list \<Rightarrow> 'l system \<Rightarrow> 'l system" where
  "put_nodes ns y =
    y\<lparr>sy_process := (sy_process y)\<lparr>pr_router := (pr_router (sy_process y))\<lparr>rt_nodes := ns\<rparr>,
        pr_shared := (sy_shared y)\<lparr>db_nodes := ns\<rparr>\<rparr>\<rparr>"

text \<open>The health checker probes one node after the other and then marks those that lag; the multiplexer's
  loops note on a node's health when it last sent and who was first.\<close>

inductive node_event :: "config \<Rightarrow> node_entry list \<Rightarrow> node_entry list \<Rightarrow> bool" for c ns where
  probed: "i < length ns \<Longrightarrow> node_event c ns (ns[i := check_node (cfg_health c) (ns ! i) p])"
| drifted: "node_event c ns (map (drift_entry max_slot) ns)"
| heard: "i < length ns \<Longrightarrow> node_event c ns (ns[i := (ns ! i)\<lparr>ne_health :=
    (ne_health (ns ! i))\<lparr>nh_last_msg_ms := wall_ms, nh_wins := wins, nh_dupes := dupes\<rparr>\<rparr>])"

section \<open>Steps\<close>

inductive sys_step :: "'l governor \<Rightarrow> (string \<Rightarrow> string + config) \<Rightarrow> 'l system \<Rightarrow> 'l system \<Rightarrow> bool"
  for gov from_str where
  arrive: "arrival gov y ip key y' t \<Longrightarrow>
    sys_step gov from_str y (y'\<lparr>sy_tasks :=
      add_mset (\<lparr>pm_ip = ip, pm_key = key, pm_config = db_config (sy_shared y)\<rparr>, t) (sy_tasks y)\<rparr>)"
| refuse: "refusal gov y remote key y' \<Longrightarrow> sys_step gov from_str y y'"
| advance: "(pm, t) \<in># sy_tasks y \<Longrightarrow> progress gov y t y' t' \<Longrightarrow>
    sys_step gov from_str y (y'\<lparr>sy_tasks :=
      sy_tasks y - {#(pm, t)#} + (case t' of Some u \<Rightarrow> {#(pm, u)#} | None \<Rightarrow> {#})\<rparr>)"
| lose: "(pm, t) \<in># sy_tasks y \<Longrightarrow> can_be_lost t \<Longrightarrow>
    sys_step gov from_str y (y\<lparr>sy_tasks := sy_tasks y - {#(pm, t)#}, sy_lost := add_mset t (sy_lost y)\<rparr>)"
| own: "main_trans gov from_str (sy_process y) p \<Longrightarrow> sys_step gov from_str y (y\<lparr>sy_process := p\<rparr>)"
| watch: "node_event (boot_config y) (db_nodes (sy_shared y)) ns \<Longrightarrow> sys_step gov from_str y (put_nodes ns y)"
| pooled: "sys_step gov from_str y (y\<lparr>sy_pool := pool\<rparr>)"

inductive_cases arrivalE: "arrival gov y ip key y' t"
inductive_cases refusalE: "refusal gov y remote key y'"
inductive_cases progressE: "progress gov y t y' t'"
inductive_cases node_eventE: "node_event c ns ns'"
inductive_cases sys_stepE: "sys_step gov from_str y z"

definition booted ::
    "'l governor \<Rightarrow> stats_codec \<Rightarrow> (string \<Rightarrow> string + config) \<Rightarrow> (string \<Rightarrow> 'a option) \<Rightarrow> 'l system \<Rightarrow> bool" where
  "booted gov codec from_str parse_addr y \<longleftrightarrow> (\<exists>p. started gov codec from_str parse_addr p \<and> y = boot p)"

section \<open>Lemmas on traffic\<close>

text \<open>What a segment of a front end does to the system.\<close>

definition traffic :: "'l governor \<Rightarrow> task option \<Rightarrow> task option \<Rightarrow> 'l system \<Rightarrow> 'l system \<Rightarrow> bool" where
  "traffic gov old new y y' \<longleftrightarrow>
     (\<exists>lims st. sy_shared y' = (sy_shared y)\<lparr>db_limiter := lims, db_stats := st\<rparr>
        \<and> limiter_moved gov (db_limiter (sy_shared y)) lims \<and> stats_moved old new (db_stats (sy_shared y)) st)
     \<and> rt_nodes (pr_router (sy_process y')) = rt_nodes (pr_router (sy_process y))
     \<and> sy_boot y' = sy_boot y \<and> sy_lost y' = sy_lost y"

lemma traffic_shared:
  "limiter_moved gov (db_limiter (sy_shared y)) lims \<Longrightarrow> stats_moved old new (db_stats (sy_shared y)) st \<Longrightarrow>
   traffic gov old new y (put_shared lims st y)"
  by (auto simp: traffic_def put_shared_def)

lemma traffic_frame:
  "traffic gov old new y (z\<lparr>sy_stream_seq := n\<rparr>) = traffic gov old new y z"
  "rt_nodes r = rt_nodes (pr_router (sy_process z)) \<Longrightarrow>
    traffic gov old new y (z\<lparr>sy_process := (sy_process z)\<lparr>pr_router := r\<rparr>\<rparr>) = traffic gov old new y z"
  by (simp_all add: traffic_def)

lemma traffic_put:
  "proxy_effect gov old new (http_view y) s \<Longrightarrow> traffic gov old new y (put_http s y)"
  "stats_moved old new (db_stats (sy_shared y)) (ye_stats z) \<Longrightarrow> traffic gov old new y (put_grpc z y)"
  "limiter_moved gov (db_limiter (sy_shared y)) (ap_limiter a) \<Longrightarrow>
    stats_moved old new (db_stats (sy_shared y)) (ap_stats a) \<Longrightarrow> traffic gov old new y (put_arpc a y)"
  by (simp_all add: put_http_def put_grpc_def put_arpc_def proxy_effect_def http_view_def traffic_frame traffic_shared
      put_shared_def [of _ _ y, THEN arg_cong [of _ _ "\<lambda>z. pr_router (sy_process z)"]] Let_def)

lemma traffic_none: "weight old = weight new \<Longrightarrow> alive_weight old = alive_weight new \<Longrightarrow> traffic gov old new y y"
  by (auto simp: traffic_def stats_moved_same intro!: exI [of _ "db_limiter (sy_shared y)"] exI [of _ "db_stats (sy_shared y)"])

lemma traffic_idle [simp]:
  "traffic gov (Some (HttpBody ip key a)) new y y' = traffic gov None new y y'"
  "traffic gov (Some (GrpcWaiting ip)) new y y' = traffic gov None new y y'"
  "traffic gov (Some (ArpcConnecting ip u)) new y y' = traffic gov None new y y'"
  "traffic gov (Some (WsAccepting ip)) new y y' = traffic gov None new y y'"
  "traffic gov old (Some (HttpBody ip key a)) y y' = traffic gov old None y y'"
  "traffic gov old (Some (GrpcWaiting ip)) y y' = traffic gov old None y y'"
  "traffic gov old (Some (ArpcConnecting ip u)) y y' = traffic gov old None y y'"
  "traffic gov old (Some (WsAccepting ip)) y y' = traffic gov old None y y'"
  by (simp_all add: traffic_def)

lemma view_simps [simp]:
  "ye_stats (grpc_view y) = db_stats (sy_shared y)" "ap_stats (arpc_view y) = db_stats (sy_shared y)"
  "ap_limiter (arpc_view y) = db_limiter (sy_shared y)"
  by (simp_all add: grpc_view_def arpc_view_def)

lemma arrival_traffic: "arrival gov y ip key y' t \<Longrightarrow> traffic gov None (Some t) y y' \<and> task_ip t = ip"
proof (erule arrivalE)
  fix show_u64 client s assume "subscribe_admit show_u64 (Some ip) key (grpc_view y) = (Inr client, s)"
    "y' = put_grpc s y" "t = GrpcWaiting ip"
  then show ?thesis using subscribe_admit_effect traffic_put(2) by fastforce
next
  fix v now env client upstream s assume "arpc_begin v gov now env (Some ip) key (arpc_view y) = (Inr (client, upstream), s)"
    "y' = put_arpc s y" "t = ArpcConnecting ip upstream"
  then show ?thesis using arpc_begin_effect traffic_put(3) by fastforce
qed (auto simp: traffic_none intro: traffic_put(1) ws_begin_effect)

lemma refusal_traffic: "refusal gov y remote key y' \<Longrightarrow> traffic gov None None y y'"
proof (erule refusalE)
  fix show_u64 e s assume "subscribe_admit show_u64 remote key (grpc_view y) = (Inl e, s)" "y' = put_grpc s y"
  then show ?thesis using subscribe_admit_effect traffic_put(2) by fastforce
next
  fix v now env e s assume "arpc_begin v gov now env remote key (arpc_view y) = (Inl e, s)" "y' = put_arpc s y"
  then show ?thesis using arpc_begin_effect traffic_put(3) by fastforce
qed (auto simp: traffic_none intro: traffic_put(1) ws_begin_effect)

lemma progress_traffic:
  assumes "progress gov y t y' t'"
  shows "traffic gov (Some t) t' y y' \<and> (\<forall>u. t' = Some u \<longrightarrow> task_ip u = task_ip t)"
  using assms
proof cases
  case (http_answered env ip key authed body resp s)
  then show ?thesis using admit_request_effect [OF http_answered(4)] traffic_put(1) by fastforce
next
  case (http_routed env ip key authed body result contacted s)
  then show ?thesis using admit_request_effect [OF http_routed(4)] traffic_put(1) by fastforce
next
  case (http_done ip result resp s)
  then show ?thesis using finish_request_effect [OF http_done(4)] traffic_put(1) by fastforce
next
  case (grpc_refused decode show_ip show_u64 show_status ip first e s)
  then show ?thesis using subscribe_route_effect [OF grpc_refused(4)] traffic_put(2) by fastforce
next
  case (grpc_direct decode show_ip show_u64 show_status ip first req label s)
  then show ?thesis using subscribe_route_effect [OF grpc_direct(4)] traffic_put(2) by fastforce
next
  case (grpc_muxed decode show_ip show_u64 show_status ip first filters label s)
  then show ?thesis using subscribe_route_effect [OF grpc_muxed(4)] traffic_put(2) by fastforce
next
  case (arpc_failed forwarders ip upstream reply e s)
  then show ?thesis using arpc_finish_effect [OF arpc_failed(4)] by (simp add: traffic_put(3))
next
  case (arpc_opened forwarders ip upstream reply stream s)
  then show ?thesis using arpc_finish_effect [OF arpc_opened(4)] by (simp add: traffic_put(3))
qed (auto simp: traffic_none intro: traffic_put(1) traffic_shared ws_message_effect stats_moved_gauge)

section \<open>The invariant\<close>

text \<open>Access: the address is on the configuration's whitelist or the key is one of its keys and not revoked.\<close>

definition permitted :: "config \<Rightarrow> ip_addr \<Rightarrow> string option \<Rightarrow> bool" where
  "permitted c ip key \<longleftrightarrow> ip \<in> whitelist_set c \<or> (\<exists>e \<in> set (live_keys c). key = Some (ak_key e))"

definition shared_ok :: "'l governor \<Rightarrow> 'l dashboard \<Rightarrow> bool" where
  "shared_ok gov d \<longleftrightarrow> coherent d \<and> distinct_keys (db_keys d) \<and> limits_in_force gov (db_config d) (db_limiter d)
     \<and> cfg_nodes (db_config d) \<noteq> [] \<and> cfg_upstream (db_config d) = None"

definition nodes_ok :: "config \<Rightarrow> 'l process \<Rightarrow> bool" where
  "nodes_ok c p \<longleftrightarrow> rt_nodes (pr_router p) = db_nodes (pr_shared p) \<and> map ne_config (db_nodes (pr_shared p)) = cfg_nodes c
     \<and> (\<forall>n \<in> set (db_nodes (pr_shared p)). nh_status (ne_health n) \<le> 2)"

text \<open>What the restored global total had in excess of the restored clients' totals.\<close>

definition boot_excess :: "'l system \<Rightarrow> u64" where
  "boot_excess y =
    (let st = db_stats (pr_shared (sy_boot y)) in st_global_total_requests st - ip_sum is_total_rpc_requests st)"

definition traffic_ok :: "'l system \<Rightarrow> bool" where
  "traffic_ok y \<longleftrightarrow> stats_inv (boot_excess y) (db_stats (sy_shared y))
     \<and> gauges_exact (image_mset snd (sy_tasks y)) (sy_lost y) (db_stats (sy_shared y))"

definition permits_ok :: "'l system \<Rightarrow> bool" where
  "permits_ok y \<longleftrightarrow>
     (\<forall>(pm, t) \<in># sy_tasks y. permitted (pm_config pm) (pm_ip pm) (pm_key pm) \<and> task_ip t = pm_ip pm)"

definition system_ok :: "'l governor \<Rightarrow> 'l system \<Rightarrow> bool" where
  "system_ok gov y \<longleftrightarrow> shared_ok gov (sy_shared y) \<and> nodes_ok (boot_config y) (sy_process y) \<and> traffic_ok y \<and> permits_ok y"

subsection \<open>At the start\<close>

definition idle_entry :: "ip_stats \<Rightarrow> bool" where
  "idle_entry x \<longleftrightarrow> (\<forall>g. gauge_value g x = 0) \<and> is_rps_current x = 0 \<and> is_tps_current x = 0"

definition idle_stats :: "stats \<Rightarrow> bool" where
  "idle_stats st \<longleftrightarrow> distinct_keys (st_per_ip st) \<and> st_global_rps_current st = 0 \<and> st_global_tps_current st = 0
     \<and> st_subscribe_supervisor_alive st = 0 \<and> (\<forall>e \<in> set (st_per_ip st). idle_entry (snd e))"

lemma set_update_sub: "set (AList.update k v al) \<subseteq> insert (k, v) (set al)"
  by (induction al) auto

lemma idle_ip_entry: "idle_stats st \<Longrightarrow> idle_entry (ip_entry ip st)"
proof -
  have "idle_entry default_ip_stats" by (simp add: idle_entry_def default_ip_stats_def all_gauges)
  then show "idle_stats st \<Longrightarrow> idle_entry (ip_entry ip st)"
    by (auto simp: ip_entry_eq idle_stats_def split: option.splits dest!: map_of_SomeD)
qed

lemma idle_modify:
  assumes "idle_stats st" "\<And>x. idle_entry x \<Longrightarrow> idle_entry (f x)"
  shows "idle_stats (modify_ip ip f st)"
  using assms idle_ip_entry [OF assms(1), of ip] set_update_sub [of ip "f (ip_entry ip st)" "st_per_ip st"]
  by (auto simp: idle_stats_def modify_ip_eq distinct_update)

lemma idle_restore: "idle_stats st \<Longrightarrow> idle_stats (restore parse ps st)"
proof -
  have ok: "idle_entry (restore_ip q x)" if "idle_entry x" for q x
    using that by (simp add: idle_entry_def restore_ip_def all_gauges)
  have "idle_stats (fold (\<lambda>(ip_str, q) s. case parse ip_str of Some ip \<Rightarrow> modify_ip ip (restore_ip q) s | None \<Rightarrow> s) es st)"
    if "idle_stats st" for es st
    using that by (induction es arbitrary: st) (auto simp: idle_modify ok split: option.splits)
  moreover have "idle_stats (st\<lparr>st_global_total_requests := n\<rparr>) = idle_stats st" for n
    by (simp add: idle_stats_def)
  ultimately show "idle_stats st \<Longrightarrow> idle_stats (restore parse ps st)"
    by (simp only: restore_def)
qed

lemma idle_startup: "idle_stats (startup_stats codec now fs c)"
proof -
  have "idle_stats (new_stats now)" by (simp add: idle_stats_def new_stats_def)
  then show ?thesis by (simp add: startup_stats_def idle_restore Let_def split: option.splits)
qed

lemma idle_traffic:
  assumes "idle_stats st"
  shows "stats_inv (st_global_total_requests st - ip_sum is_total_rpc_requests st) st" "gauges_exact {#} {#} st"
proof -
  have "ip_sum g st = 0" if "\<And>x. idle_entry x \<Longrightarrow> g x = 0" for g
  proof -
    have "map (\<lambda>e. g (snd e)) (st_per_ip st) = map (\<lambda>_. 0) (st_per_ip st)"
      using assms that by (auto simp: idle_stats_def)
    then show ?thesis unfolding ip_sum_def by (simp only: sum_list_0)
  qed
  then show "stats_inv (st_global_total_requests st - ip_sum is_total_rpc_requests st) st"
    using assms by (simp add: stats_inv_def idle_stats_def idle_entry_def)
  show "gauges_exact {#} {#} st"
    using assms idle_ip_entry [OF assms] by (simp add: gauges_exact_def idle_stats_def idle_entry_def)
qed

lemma system_start:
  assumes "booted gov codec from_str parse_addr y" "unique_keys from_str"
  shows "system_ok gov y"
proof -
  from assms(1) obtain p where p: "started gov codec from_str parse_addr p" "y = boot p" by (auto simp: booted_def)
  from p(1) obtain available now path fs
    where "main_start gov codec from_str parse_addr available now path fs = Inr p" by (auto simp: started_def)
  then obtain c where c: "pr_shared p = start_dashboard gov codec now path fs c" "pr_router p = new_cluster_router c"
    by (rule main_start_Inr)
  have life: "life_ok p" by (rule life_start [OF p(1) assms(2)])
  have "distinct_keys (db_keys (pr_shared p))" "limits_in_force gov (db_config (pr_shared p)) (db_limiter (pr_shared p))"
    by (simp_all add: c start_dashboard_def new_key_store_def distinct_insert_all limits_new)
  then have "shared_ok gov (pr_shared p)" using life by (simp add: shared_ok_def life_ok_def)
  moreover have "nodes_ok (db_config (pr_shared p)) p"
    by (auto simp: nodes_ok_def c start_dashboard_def new_cluster_router_def new_router_def new_nodes_def new_health_def
        comp_def)
  moreover have "idle_stats (db_stats (pr_shared p))" by (simp add: c start_dashboard_def idle_startup)
  ultimately show ?thesis
    by (simp add: system_ok_def p boot_def traffic_ok_def permits_ok_def boot_excess_def idle_traffic Let_def)
qed

subsection \<open>Steps of the process\<close>

lemma shared_frame [simp]:
  "shared_ok gov (d\<lparr>db_stats := st\<rparr>) = shared_ok gov d" "shared_ok gov (d\<lparr>db_fs := fs\<rparr>) = shared_ok gov d"
  "shared_ok gov (d\<lparr>db_nodes := ns\<rparr>) = shared_ok gov d"
  by (simp_all add: shared_ok_def coherent_def)

lemma shared_limiter:
  "shared_ok gov d \<Longrightarrow> limiter_moved gov (db_limiter d) lims \<Longrightarrow> shared_ok gov (d\<lparr>db_limiter := lims\<rparr>)"
  by (auto simp: shared_ok_def coherent_def limiter_moved_def limits_step)

lemma shared_reload:
  assumes "shared_ok gov d" "unique_keys from_str"
  shows "shared_ok gov (sighup_reload gov from_str d)"
proof -
  let ?d = "sighup_reload gov from_str d"
  have "distinct_keys (db_keys ?d) \<and> limits_in_force gov (db_config ?d) (db_limiter ?d)"
    using assms(1)
    by (simp add: shared_ok_def sighup_reload_def reload_keys_def distinct_insert_all reload_eq_new limits_new Let_def
        split: sum.splits)
  then show ?thesis
    using assms coherent_reload [of d from_str gov] reload_nodes [of d gov from_str] by (simp add: shared_ok_def)
qed

lemma shared_admin:
  assumes "shared_ok (de_gov e) d" "generate_api_key (de_random e) \<notin> ak_key ` set (cfg_api_keys (db_config d))"
  shows "shared_ok (de_gov e) (snd (dispatch e ax now now_ms req d))"
  using assms dispatch_effect [of e d ax now now_ms req] coherent_dispatch [of d e ax now now_ms req]
    dispatch_nodes [of e ax now now_ms req d]
  by (auto simp: shared_ok_def admin_effect_def limits_new)

lemma own_effect:
  assumes "main_trans gov from_str p q"
  shows "pr_router q = pr_router p \<and> db_nodes (pr_shared q) = db_nodes (pr_shared p)
    \<and> db_stats (pr_shared q) \<in> {db_stats (pr_shared p), reset_rolling_counters (db_stats (pr_shared p))}
    \<and> (shared_ok gov (pr_shared p) \<longrightarrow> unique_keys from_str \<longrightarrow> shared_ok gov (pr_shared q))"
  using assms
proof cases
  case (admin e ax now now_ms req)
  then show ?thesis
    using shared_admin [of e "pr_shared p" ax now now_ms req] dispatch_effect [of e "pr_shared p" ax now now_ms req]
    by (auto simp: admin_effect_def)
next
  case sighup
  then show ?thesis
    using shared_reload [of gov "pr_shared p" from_str] by (auto simp: sighup_reload_def Let_def split: sum.splits)
qed (auto simp: reset_tick_def save_stats_def Let_def)

lemma gauges_reset: "gauges_exact ts lost (reset_rolling_counters st) = gauges_exact ts lost st"
proof -
  have "ip_entry ip (reset_rolling_counters st) = (ip_entry ip st)\<lparr>is_rps_current := 0, is_tps_current := 0\<rparr>
      \<or> ip_entry ip (reset_rolling_counters st) = ip_entry ip st" for ip
    by (auto simp: ip_entry_eq reset_rolling_counters_def map_of_map split: option.splits)
  moreover have "gauge_value g (x\<lparr>is_rps_current := 0, is_tps_current := 0\<rparr>) = gauge_value g x" for g x
    by (cases g) simp_all
  ultimately have "gauge_value g (ip_entry ip (reset_rolling_counters st)) = gauge_value g (ip_entry ip st)" for g ip
    by metis
  then show ?thesis by (simp add: gauges_exact_def reset_rolling_counters_def)
qed

subsection \<open>Steps of the system\<close>

lemma node_event_ok:
  assumes "node_event c ns ns'"
  shows "map ne_config ns' = map ne_config ns"
    and "\<forall>n \<in> set ns. nh_status (ne_health n) \<le> 2 \<Longrightarrow> \<forall>n \<in> set ns'. nh_status (ne_health n) \<le> 2"
proof -
  have upd: "map ne_config (ns[i := n]) = map ne_config ns" if "ne_config n = ne_config (ns ! i)" for i n
    using that by (metis list_update_id map_update)
  show "map ne_config ns' = map ne_config ns"
    using assms by cases (auto simp: upd check_node_def drift_entry_def)
  have out: "nh_status (apply_outcome h t out x) \<le> 2" if "nh_status x \<le> 2" for h t out x
    using that by (cases out) (auto simp: fail_node_def frame_simps Let_def)
  have st: "nh_status (ne_health (check_node h n p)) \<le> 2" "nh_status (ne_health (drift_entry m n)) \<le> 2"
    if "nh_status (ne_health n) \<le> 2" for h n p m
    using that by (auto simp: check_node_def drift_entry_def drift_def out frame_simps Let_def)
  show "\<forall>n \<in> set ns. nh_status (ne_health n) \<le> 2 \<Longrightarrow> \<forall>n \<in> set ns'. nh_status (ne_health n) \<le> 2"
    using assms by cases (auto simp: st dest!: set_update_subset_insert [THEN subsetD])
qed

lemma traffic_kept:
  assumes "traffic gov old new y y'"
  shows "shared_ok gov (sy_shared y) \<Longrightarrow> shared_ok gov (sy_shared y')"
    and "nodes_ok c (sy_process y) \<Longrightarrow> nodes_ok c (sy_process y')"
    and "stats_inv \<delta> (db_stats (sy_shared y)) \<Longrightarrow> stats_inv \<delta> (db_stats (sy_shared y'))"
    and "gauges_exact (ts + task_set old) lost (db_stats (sy_shared y)) \<Longrightarrow>
      gauges_exact (ts + task_set new) lost (db_stats (sy_shared y'))"
    and "sy_boot y' = sy_boot y" "sy_lost y' = sy_lost y" "db_config (sy_shared y') = db_config (sy_shared y)"
proof -
  from assms obtain lims st where t: "sy_shared y' = (sy_shared y)\<lparr>db_limiter := lims, db_stats := st\<rparr>"
    "limiter_moved gov (db_limiter (sy_shared y)) lims" "stats_moved old new (db_stats (sy_shared y)) st"
    by (auto simp: traffic_def)
  show "shared_ok gov (sy_shared y) \<Longrightarrow> shared_ok gov (sy_shared y')"
    using t(2) by (simp add: t(1) shared_limiter)
  show "nodes_ok c (sy_process y) \<Longrightarrow> nodes_ok c (sy_process y')"
    using assms t(1) by (simp add: nodes_ok_def traffic_def)
  show "stats_inv \<delta> (db_stats (sy_shared y)) \<Longrightarrow> stats_inv \<delta> (db_stats (sy_shared y'))"
    using t(1,3) by (simp add: stats_moved_def)
  show "gauges_exact (ts + task_set old) lost (db_stats (sy_shared y)) \<Longrightarrow>
      gauges_exact (ts + task_set new) lost (db_stats (sy_shared y'))"
    using t(1,3) gauges_moved [of ts old lost "db_stats (sy_shared y)" new st] by (simp add: stats_moved_def)
qed (use assms in \<open>auto simp: traffic_def\<close>)

text \<open>Only the tasks that were admitted, with what the access lists allow at that time.\<close>

lemma arrival_permitted:
  assumes "coherent (sy_shared y)" "arrival gov y ip key y' t"
  shows "permitted (db_config (sy_shared y)) ip key"
proof -
  have key: "\<exists>e \<in> set (live_keys (db_config (sy_shared y))). key = Some (ak_key e)"
    if "key = Some k" "validate_key (db_keys (sy_shared y)) k \<noteq> None" for k
    using that assms(1) new_store_valid_iff [of "cfg_api_keys (db_config (sy_shared y))" k]
    by (auto simp: coherent_def live_keys_def)
  have wl: "ip \<in> whitelist_set (db_config (sy_shared y))" if "is_allowed (db_whitelist (sy_shared y)) ip"
    using that assms(1) by (simp add: coherent_def is_allowed_def)
  have "is_allowed (db_whitelist (sy_shared y)) ip \<or>
      (\<exists>k. key = Some k \<and> validate_key (db_keys (sy_shared y)) k \<noteq> None)"
    using assms(2)
  proof cases
    case (http authed)
    then show ?thesis by (auto simp: begin_request_def http_view_def Let_def split: if_splits bind_splits)
  next
    case (ws now node s)
    then show ?thesis by (auto simp: ws_begin_def http_view_def split: if_splits)
  next
    case (grpc show_u64 client s)
    then show ?thesis
      by (auto simp: subscribe_admit_def extract_client_ip_def grpc_view_def Let_def split: if_splits bind_splits)
  next
    case (arpc v now env client upstream s)
    then obtain s1 where "arpc_check_access gov now ip key (arpc_view y) = (Inr (), s1)"
      by (auto simp: arpc_begin_def arpc_extract_client_ip_def split: prod.splits sum.splits)
    from access_spec(2) [OF this] show ?thesis by (simp add: arpc_authorised_def arpc_view_def)
  qed
  with key wl show ?thesis by (auto simp: permitted_def)
qed

lemma system_arrive:
  assumes "system_ok gov y" "arrival gov y ip key y' t"
  shows "system_ok gov (y'\<lparr>sy_tasks :=
    add_mset (\<lparr>pm_ip = ip, pm_key = key, pm_config = db_config (sy_shared y)\<rparr>, t) (sy_tasks y)\<rparr>)"
proof -
  from arrival_traffic [OF assms(2)] have t: "traffic gov None (Some t) y y'" "task_ip t = ip" by auto
  note kept = traffic_kept [OF t(1)]
  have "permitted (db_config (sy_shared y)) ip key"
    using assms arrival_permitted by (auto simp: system_ok_def shared_ok_def)
  with t(2) assms(1) show ?thesis
    using kept(1-3,5,6) kept(4) [of "image_mset snd (sy_tasks y)" "sy_lost y"]
    by (auto simp: system_ok_def traffic_ok_def permits_ok_def boot_excess_def task_set_def)
qed

lemma system_refuse:
  assumes "system_ok gov y" "refusal gov y remote key y'" "sy_tasks y' = sy_tasks y"
  shows "system_ok gov y'"
  using assms(1,3) traffic_kept [OF refusal_traffic [OF assms(2)]]
  by (auto simp: system_ok_def traffic_ok_def permits_ok_def boot_excess_def task_set_def)

lemma refusal_tasks: "refusal gov y remote key y' \<Longrightarrow> sy_tasks y' = sy_tasks y"
  by (auto elim!: refusalE simp: put_http_def put_grpc_def put_arpc_def put_shared_def Let_def)

lemma system_advance:
  assumes "system_ok gov y" "(pm, t) \<in># sy_tasks y" "progress gov y t y' t'"
  shows "system_ok gov (y'\<lparr>sy_tasks :=
      sy_tasks y - {#(pm, t)#} + (case t' of Some u \<Rightarrow> {#(pm, u)#} | None \<Rightarrow> {#})\<rparr>)"
proof -
  let ?rest = "sy_tasks y - {#(pm, t)#}" and ?new = "case t' of Some u \<Rightarrow> {#(pm, u)#} | None \<Rightarrow> {#}"
  from progress_traffic [OF assms(3)] have t: "traffic gov (Some t) t' y y'"
    "\<And>u. t' = Some u \<Longrightarrow> task_ip u = task_ip t" by auto
  note kept = traffic_kept [OF t(1)]
  have tasks: "sy_tasks y = add_mset (pm, t) ?rest" using assms(2) by simp
  have "image_mset snd (sy_tasks y) = image_mset snd ?rest + task_set (Some t)"
    by (subst tasks) (simp add: task_set_def)
  moreover have "image_mset snd (?rest + ?new) = image_mset snd ?rest + task_set t'"
    by (simp add: task_set_def split: option.splits)
  moreover have "\<forall>(pm', u) \<in># ?rest + ?new. permitted (pm_config pm') (pm_ip pm') (pm_key pm') \<and> task_ip u = pm_ip pm'"
    using assms(1,2) t(2) by (auto simp: system_ok_def permits_ok_def dest: in_diffD split: option.splits)
  ultimately show ?thesis
    using assms(1) kept(1-3,5,6) kept(4) [of "image_mset snd ?rest" "sy_lost y"]
    by (simp add: system_ok_def traffic_ok_def permits_ok_def boot_excess_def)
qed

lemma system_lose:
  assumes "system_ok gov y" "(pm, t) \<in># sy_tasks y" "can_be_lost t"
  shows "system_ok gov (y\<lparr>sy_tasks := sy_tasks y - {#(pm, t)#}, sy_lost := add_mset t (sy_lost y)\<rparr>)"
proof -
  have "\<not> supervised t" using assms(3) by (cases t) (simp_all add: supervised_def)
  moreover have "image_mset snd (sy_tasks y) = add_mset t (image_mset snd (sy_tasks y - {#(pm, t)#}))"
    using assms(2) by (metis image_mset_add_mset insert_DiffM snd_conv)
  ultimately show ?thesis
    using assms(1) gauges_lost [of t "image_mset snd (sy_tasks y - {#(pm, t)#})" "sy_lost y"]
    by (auto simp: system_ok_def traffic_ok_def permits_ok_def boot_excess_def dest: in_diffD)
qed

lemma system_own:
  assumes "system_ok gov y" "main_trans gov from_str (sy_process y) p" "unique_keys from_str"
  shows "system_ok gov (y\<lparr>sy_process := p\<rparr>)"
  using assms(1,3) own_effect [OF assms(2)]
  by (auto simp: system_ok_def nodes_ok_def traffic_ok_def permits_ok_def boot_excess_def gauges_reset stats_inv_reset)

lemma system_watch:
  assumes "system_ok gov y" "node_event (boot_config y) (db_nodes (sy_shared y)) ns"
  shows "system_ok gov (put_nodes ns y)"
  using assms(1) node_event_ok [OF assms(2)]
  by (auto simp: system_ok_def nodes_ok_def traffic_ok_def permits_ok_def boot_excess_def put_nodes_def)

lemma system_step_ok:
  assumes "sys_step gov from_str y z" "unique_keys from_str" "system_ok gov y"
  shows "system_ok gov z"
  using assms(1)
proof cases
  case (arrive ip key y' t) then show ?thesis using system_arrive assms(3) by blast
next
  case (refuse remote key) then show ?thesis using system_refuse refusal_tasks assms(3) by blast
next
  case (advance pm t y' t') then show ?thesis using system_advance assms(3) by blast
next
  case (lose pm t) then show ?thesis using system_lose assms(3) by blast
next
  case (own p) then show ?thesis using system_own assms(2,3) by blast
next
  case (watch ns) then show ?thesis using system_watch assms(3) by blast
next
  case (pooled pool)
  with assms(3) show ?thesis by (simp add: system_ok_def traffic_ok_def permits_ok_def boot_excess_def)
qed

interpretation sys: step_invariant "booted gov codec from_str parse_addr" "sys_step gov from_str"
    "\<lambda>y. unique_keys from_str \<longrightarrow> system_ok gov y"
  for gov codec from_str parse_addr
  by unfold_locales (auto intro: system_start system_step_ok)

lemma revoked_key:
  assumes "revoke_api_key e header pre d = (Inr (), d')"
  obtains k where "key_matches pre k" "validate_key (db_keys d) k \<noteq> None" "validate_key (db_keys d') k = None"
proof -
  from assms obtain k data where f: "find (\<lambda>(k, _). key_matches pre k) (list_keys (db_keys d)) = Some (k, data)"
    and d': "db_keys d' = snd (revoke_key k (db_keys d))"
    by (auto simp: revoke_api_key_def Let_def split: if_splits option.splits prod.splits)
  from f have "(k, data) \<in> set (db_keys d)" "key_matches pre k"
    by (auto simp: find_Some_iff list_keys_def) (metis nth_mem)
  then have "validate_key (db_keys d) k \<noteq> None" unfolding validate_key_def by (metis option.distinct(1) weak_map_of_SomeI)
  with \<open>key_matches pre k\<close> d' show ?thesis by (intro that [of k]) simp_all
qed

lemma status_codes: "x \<le> 2 \<Longrightarrow> x \<in> {0, 1, 2 :: u8}"
proof -
  assume "x \<le> 2"
  then have "unat x = 0 \<or> unat x = 1 \<or> unat x = 2" by (auto simp: word_le_nat_alt)
  moreover have "x = of_nat (unat x)" by simp
  ultimately show ?thesis by (auto simp del: of_nat_unat)
qed

section \<open>Properties\<close>


text \<open>A system in which the whitelisted client has sent a request.\<close>

definition example_booted :: "nat system" where
  "example_booted = boot example_process"

definition example_permit :: permit where
  "example_permit = \<lparr>pm_ip = V4 1, pm_key = None, pm_config = example_config\<rparr>"

definition example_arrived :: "nat system" where
  "example_arrived = example_booted\<lparr>sy_tasks := {#(example_permit, HttpBody (V4 1) None False)#}\<rparr>"

abbreviation example_reach :: "nat system \<Rightarrow> bool" where
  "example_reach \<equiv> reach (booted example_governor example_codec sample_from_toml Some)
     (sys_step example_governor sample_from_toml)"

lemma example_unique: "\<forall>s c. sample_from_toml s = Inr c \<longrightarrow> distinct (map ak_key (cfg_api_keys c))"
  by (simp add: sample_from_toml_def example_config_def)

lemma example_booted_reach: "example_reach example_booted"
  unfolding example_booted_def booted_def started_def using example_started by (intro reach.start exI conjI) auto

lemma example_view:
  "http_view example_booted = example_proxy\<lparr>px_router := new_cluster_router example_config,
     px_stats := db_stats (pr_shared example_process)\<rparr>"
  by (simp add: http_view_def example_booted_def boot_def example_process_def example_proxy_def start_dashboard_def)

lemma example_config_booted: "db_config (sy_shared example_booted) = example_config"
  by (simp add: example_booted_def boot_def example_process_def start_dashboard_def)

lemma example_arrived_reach: "example_reach example_arrived"
proof -
  have "begin_request (V4 1) None (http_view example_booted) = Some False"
    using example_authorised(1) by (simp add: begin_request_def example_view authorised_def)
  from reach.step [OF example_booted_reach sys_step.arrive [OF arrival.http [OF this]]]
  show ?thesis
    by (simp add: example_arrived_def example_permit_def example_config_booted)
      (simp add: example_booted_def boot_def)
qed







text \<open>The request of the example is admitted, and its client disconnects before the upstream answers.\<close>

lemma example_lost:
  obtains y r where "example_reach y" "sy_tasks y = {#}" "sy_lost y = {#HttpRouting (V4 1) r#}"
proof -
  have "http_view example_arrived = http_view example_booted" by (simp add: example_arrived_def http_view_def)
  then have "fst (rate_limit_request example_governor (he_now example_env) (V4 1) None False (send_tx_body ''{}'')
      (px_limiter (http_view example_arrived))) = Inr ()"
    using example_admission by (simp add: admission_def example_view)
  moreover have "read_body (Inr ''{}'') = Inr ''{}''" by (simp add: read_body_def max_body_size_def)
  ultimately obtain r n s where "admit_request example_governor example_env (V4 1) None False (Inr ''{}'')
      (http_view example_arrived) = (Inr (r, n), s)"
    by (metis admit_request_routed)
  note routed = progress.http_routed [OF this]
  have mem: "(example_permit, HttpBody (V4 1) None False) \<in># sy_tasks example_arrived"
    by (simp add: example_arrived_def)
  let ?y = "(put_http s example_arrived)\<lparr>sy_tasks := {#(example_permit, HttpRouting (V4 1) r)#}\<rparr>"
  have "example_reach ?y"
    using reach.step [OF example_arrived_reach sys_step.advance [OF mem routed]] by (simp add: example_arrived_def)
  from reach.step [OF this sys_step.lose [of example_permit "HttpRouting (V4 1) r"]]
  have "example_reach (?y\<lparr>sy_tasks := {#}, sy_lost := {#HttpRouting (V4 1) r#}\<rparr>)"
    by (simp add: put_http_def put_shared_def example_arrived_def example_booted_def boot_def Let_def)
  then show ?thesis by (rule that) simp_all
qed



lemma example_config_arrived: "db_config (sy_shared example_arrived) = example_config"
  by (simp add: example_arrived_def) (rule example_config_booted)

definition example_admin :: "string option" where
  "example_admin = Some (''Basic '' @ base64_encode
     (gc_dashboard_user (cfg_general example_config) @ CHR '':'' # gc_dashboard_pass (cfg_general example_config)))"


end
