(* ===== verification/Shadow_Test.thy ===== *)
theory Shadow_Test
  imports Geyser
begin

text \<open>
  The stand-alone tool \<open>src/src/bin/yellowstone_shadow_test.rs\<close>, which subscribes to a Geyser endpoint
  with real wallet addresses and watches what it delivers while the filter grows, shrinks and churns, and
  what a second stream delivers: the requests it builds and sends, the counters its reader keeps and the differences it prints. The
  endpoint, the channel of the stream and the clock are inputs; a slice out of range is a panic.
\<close>

section \<open>Requests\<close>

definition build_request :: "string list \<Rightarrow> subscribe_request" where
  "build_request account_pubkeys =
    \<lparr>sr_accounts = [(''shadow_accounts'', \<lparr>af_account = account_pubkeys, af_owner = [], af_filters = [],
       af_nonempty_txn_signature = None, af_cuckoo_accounts_filter = None\<rparr>)],
     sr_slots = [(''shadow_slots'', \<lparr>sf_filter_by_commitment = None, sf_interslot_updates = Some False\<rparr>)],
     sr_transactions = [], sr_transactions_status = [], sr_blocks = [],
     sr_blocks_meta = [(''shadow_blocks_meta'', ())], sr_entry = [], sr_commitment = Some 0,
     sr_accounts_data_slice = [], sr_ping = None, sr_from_slot = None, sr_block_footer = []\<rparr>"

datatype probe_error = ProbeFailed string | ProbePanic

text \<open>\<open>&xs[a..b]\<close>\<close>

definition sub_slice :: "'a list \<Rightarrow> nat \<Rightarrow> nat \<Rightarrow> 'a list option" where
  "sub_slice xs a b = (if a \<le> b \<and> b \<le> length xs then Some (drop a (take b xs)) else None)"

text \<open>The stages of \<open>make_stream\<close>: each may fail; the first request is queued before the call.\<close>

record stream_env =
  se_endpoint :: "string option"
  se_connect :: "string option"
  se_send :: "string option"
  se_subscribe :: "string option"

definition make_stream :: "stream_env \<Rightarrow> string list \<Rightarrow> probe_error + subscribe_request" where
  "make_stream env initial =
    (case se_endpoint env of Some e \<Rightarrow> Inl (ProbeFailed e)
     | None \<Rightarrow> (case se_connect env of Some e \<Rightarrow> Inl (ProbeFailed e)
     | None \<Rightarrow> (case se_send env of Some e \<Rightarrow> Inl (ProbeFailed e)
     | None \<Rightarrow> (case se_subscribe env of Some e \<Rightarrow> Inl (ProbeFailed e)
     | None \<Rightarrow> Inr (build_request initial)))))"

section \<open>Counters\<close>

record counters =
  ct_accounts :: u64
  ct_slots :: u64
  ct_blocks_meta :: u64
  ct_pings :: u64
  ct_pongs :: u64
  ct_other :: u64
  ct_errors :: u64
  ct_last_slot :: u64
  ct_first_account_after_swap_at :: "instant option"

definition default_counters :: counters where
  "default_counters = \<lparr>ct_accounts = 0, ct_slots = 0, ct_blocks_meta = 0, ct_pings = 0, ct_pongs = 0, ct_other = 0,
     ct_errors = 0, ct_last_slot = 0, ct_first_account_after_swap_at = None\<rparr>"

definition count_update :: "instant \<Rightarrow> subscribe_update \<Rightarrow> counters \<Rightarrow> counters" where
  "count_update now update c =
    (case up_oneof update of
       Some (UAccount _) \<Rightarrow>
         let c = c\<lparr>ct_accounts := ct_accounts c + 1\<rparr>
         in if ct_first_account_after_swap_at c = None then c\<lparr>ct_first_account_after_swap_at := Some now\<rparr> else c
     | Some (USlot s) \<Rightarrow> c\<lparr>ct_slots := ct_slots c + 1, ct_last_slot := su_slot s\<rparr>
     | Some (UBlockMeta _) \<Rightarrow> c\<lparr>ct_blocks_meta := ct_blocks_meta c + 1\<rparr>
     | Some (UPing) \<Rightarrow> c\<lparr>ct_pings := ct_pings c + 1\<rparr>
     | Some (UPong _) \<Rightarrow> c\<lparr>ct_pongs := ct_pongs c + 1\<rparr>
     | _ \<Rightarrow> c\<lparr>ct_other := ct_other c + 1\<rparr>)"

text \<open>The reader task on the items that arrive in a phase; an error ends it for good.\<close>

fun read_items :: "(instant \<times> (string + subscribe_update)) list \<Rightarrow> counters \<times> bool \<Rightarrow> counters \<times> bool" where
  "read_items [] (c, alive) = (c, alive)"
| "read_items ((now, item) # items) (c, alive) =
    (if \<not> alive then (c, alive)
     else (case item of
             Inr update \<Rightarrow> read_items items (count_update now update c, True)
           | Inl e \<Rightarrow> (c\<lparr>ct_errors := ct_errors c + 1\<rparr>, False)))"

text \<open>\<open>print_delta\<close>: \<open>u64\<close> subtractions, which panic (\<open>None\<close>) below zero in a checked build.\<close>

definition checked_sub :: "u64 \<Rightarrow> u64 \<Rightarrow> u64 option" where
  "checked_sub a b = (if b \<le> a then Some (a - b) else None)"

definition print_delta :: "counters \<Rightarrow> counters \<Rightarrow> u64 option list" where
  "print_delta before after =
    [checked_sub (ct_accounts after) (ct_accounts before), checked_sub (ct_slots after) (ct_slots before),
     checked_sub (ct_blocks_meta after) (ct_blocks_meta before), checked_sub (ct_pings after) (ct_pings before),
     checked_sub (ct_pongs after) (ct_pongs before), checked_sub (ct_errors after) (ct_errors before)]"

section \<open>The test\<close>

datatype try_send = TrySent | TryFull "string option" | TryClosed \<comment> \<open>with the error of the waiting send, if any\<close>

record grow_env =
  ge_try :: try_send
  ge_items :: "(instant \<times> (string + subscribe_update)) list"

record probe_state =
  ps_counters :: counters
  ps_alive :: bool
  ps_sent :: "subscribe_request list"
  ps_deltas :: "u64 option list list"

definition observe_phase :: "(instant \<times> (string + subscribe_update)) list \<Rightarrow> probe_state \<Rightarrow> probe_state" where
  "observe_phase items ps =
    (case read_items items (ps_counters ps, ps_alive ps) of
       (c, alive) \<Rightarrow> ps\<lparr>ps_counters := c, ps_alive := alive,
                      ps_deltas := ps_deltas ps @ [print_delta (ps_counters ps) c]\<rparr>)"

definition grow_targets :: "nat \<Rightarrow> nat list" where
  "grow_targets n = [200, 1000, 5000, 10000, 20000, min n 25000]"

definition watch_grow :: "grow_env \<Rightarrow> probe_state \<Rightarrow> probe_state" where
  "watch_grow e ps =
    observe_phase (ge_items e)
      (ps\<lparr>ps_counters := (ps_counters ps)\<lparr>ct_first_account_after_swap_at := None\<rparr>\<rparr>)"

fun grow :: "string list \<Rightarrow> (nat \<times> grow_env) list \<Rightarrow> string list \<Rightarrow> probe_state
             \<Rightarrow> (probe_error + string list) \<times> probe_state" where
  "grow wallets [] pubkeys ps = (Inr pubkeys, ps)"
| "grow wallets ((t, e) # ts) pubkeys ps =
    (let target = min t (length wallets)
     in if target \<le> length pubkeys then grow wallets ts pubkeys ps
        else (case sub_slice wallets (length pubkeys) target of
                None \<Rightarrow> (Inl ProbePanic, ps)
              | Some extra \<Rightarrow>
                  let pubkeys = pubkeys @ extra;
                      sent = ps\<lparr>ps_sent := ps_sent ps @ [build_request pubkeys]\<rparr>
                  in (case ge_try e of
                        TryClosed \<Rightarrow> (Inr pubkeys, ps)
                      | TryFull (Some err) \<Rightarrow> (Inl (ProbeFailed err), ps)
                      | _ \<Rightarrow>
                          let post = watch_grow e sent
                          in if ct_errors (ps_counters post) > ct_errors (ps_counters sent) then (Inr pubkeys, post)
                             else grow wallets ts pubkeys post)))"

text \<open>One turn of the churn loop per outcome, until a minute is over or the channel is closed: the number of
  turns and of requests that found the channel full.\<close>

fun churn ::
    "string list \<Rightarrow> nat \<times> nat \<Rightarrow> try_send list \<Rightarrow> subscribe_request list
     \<Rightarrow> (probe_error + nat \<times> nat) \<times> subscribe_request list" where
  "churn wallets (iter_count, send_full) [] sent = (Inr (iter_count, send_full), sent)"
| "churn wallets (iter_count, send_full) (r # rs) sent =
    (let target = min (if iter_count mod 2 = 0 then 200 else 5000) (length wallets)
     in (case sub_slice wallets 0 target of
           None \<Rightarrow> (Inl ProbePanic, sent)
         | Some u \<Rightarrow>
             (case r of
                TrySent \<Rightarrow> churn wallets (Suc iter_count, send_full) rs (sent @ [build_request u])
              | TryFull _ \<Rightarrow> churn wallets (Suc iter_count, Suc send_full) rs sent
              | TryClosed \<Rightarrow> (Inr (iter_count, send_full), sent))))"

text \<open>The second stream: what each wait of at most a second brings and when it began.\<close>

datatype second_poll = SecondItem | SecondError | SecondEnd | SecondTimeout

fun read_second :: "(duration \<times> second_poll) list \<Rightarrow> u64 \<Rightarrow> u64" where
  "read_second [] count2 = count2"
| "read_second ((elapsed, p) # ps) count2 =
    (if elapsed \<ge> 5000 then count2
     else (case p of
             SecondItem \<Rightarrow> read_second ps (count2 + 1)
           | SecondError \<Rightarrow> count2
           | SecondEnd \<Rightarrow> count2
           | SecondTimeout \<Rightarrow> read_second ps count2))"

record test_env =
  te_wallets :: "string + string list" \<comment> \<open>the file, read and parsed\<close>
  te_stream :: stream_env
  te_baseline :: "(instant \<times> (string + subscribe_update)) list"
  te_grow :: "grow_env list"
  te_shrink_send :: "string option"
  te_shrink :: "(instant \<times> (string + subscribe_update)) list"
  te_churn :: "try_send list"
  te_churn_items :: "(instant \<times> (string + subscribe_update)) list"
  te_second_stream :: stream_env
  te_second :: "(duration \<times> second_poll) list"
  te_wrap_up :: "(instant \<times> (string + subscribe_update)) list"

definition new_probe :: "subscribe_request list \<Rightarrow> probe_state" where
  "new_probe reqs = \<lparr>ps_counters = default_counters, ps_alive = True, ps_sent = reqs, ps_deltas = []\<rparr>"

definition read_on :: "(instant \<times> (string + subscribe_update)) list \<Rightarrow> probe_state \<Rightarrow> probe_state" where
  "read_on items ps =
    (case read_items items (ps_counters ps, ps_alive ps) of (c, alive) \<Rightarrow> ps\<lparr>ps_counters := c, ps_alive := alive\<rparr>)"

text \<open>The first four phases, on the first stream.\<close>

definition run_phases :: "test_env \<Rightarrow> string list \<Rightarrow> (probe_error + nat \<times> nat) \<times> probe_state" where
  "run_phases env wallets =
    (let n = length wallets
     in if n < 100 then (Inl (ProbeFailed ''wallet list too small''), new_probe [])
        else (case sub_slice wallets 0 50 of
                None \<Rightarrow> (Inl ProbePanic, new_probe [])
              | Some initial \<Rightarrow>
                  (case make_stream (te_stream env) initial of
                     Inl e \<Rightarrow> (Inl e, new_probe [])
                   | Inr req \<Rightarrow>
                       (case grow wallets (zip (grow_targets n) (te_grow env)) initial
                               (observe_phase (te_baseline env) (new_probe [req])) of
                          (Inl e, ps) \<Rightarrow> (Inl e, ps)
                        | (Inr pubkeys, ps) \<Rightarrow>
                            (case te_shrink_send env of
                               Some e \<Rightarrow> (Inl (ProbeFailed e), ps)
                             | None \<Rightarrow>
                                 let ps = observe_phase (te_shrink env)
                                            (ps\<lparr>ps_sent := ps_sent ps @ [build_request (take 50 pubkeys)]\<rparr>)
                                 in (case churn wallets (0, 0) (te_churn env) (ps_sent ps) of
                                       (res, sent) \<Rightarrow> (res, read_on (te_churn_items env) (ps\<lparr>ps_sent := sent\<rparr>))))))))"

text \<open>The last two phases: a second stream beside the first (its request and how many messages it brought
  in five seconds), then the first is closed and its reader given five seconds.\<close>

record probe_report =
  pr_churn :: "nat \<times> nat"
  pr_second :: "probe_error + subscribe_request \<times> u64"
  pr_final :: counters

definition run_test :: "test_env \<Rightarrow> (probe_error + probe_report) \<times> probe_state" where
  "run_test env =
    (case te_wallets env of
       Inl e \<Rightarrow> (Inl (ProbeFailed e), new_probe [])
     | Inr wallets \<Rightarrow>
         (case run_phases env wallets of
            (Inl e, ps) \<Rightarrow> (Inl e, ps)
          | (Inr churned, ps) \<Rightarrow>
              let second = (case make_stream (te_second_stream env) (take 50 wallets) of
                              Inl e \<Rightarrow> Inl e
                            | Inr req \<Rightarrow> Inr (req, read_second (te_second env) 0));
                  ps = read_on (te_wrap_up env) ps
              in (Inr \<lparr>pr_churn = churned, pr_second = second, pr_final = ps_counters ps\<rparr>, ps)))"

text \<open>The command line: endpoint and wallet file, with defaults.\<close>

definition probe_args :: "string list \<Rightarrow> string \<times> string" where
  "probe_args args =
    (if length args > 1 then args ! 1 else ''http://fra.corvus-labs.io:10101'',
     if length args > 2 then args ! 2 else ''/tmp/wallets.json'')"

section \<open>Lemmas\<close>

definition asks_prefix :: "string list \<Rightarrow> subscribe_request \<Rightarrow> bool" where
  "asks_prefix wallets req \<longleftrightarrow> (\<exists>k \<le> 25000. k \<le> length wallets \<and> req = build_request (take k wallets))"

lemma slice_0: "sub_slice xs 0 b = (if b \<le> length xs then Some (take b xs) else None)"
  by (simp add: sub_slice_def)

lemma slice_extends: "a \<le> b \<Longrightarrow> b \<le> length xs \<Longrightarrow> take a xs @ the (sub_slice xs a b) = take b xs"
  by (simp add: sub_slice_def) (metis append_take_drop_id min.absorb1 take_take)

lemma observe_sent [simp]: "ps_sent (observe_phase items ps) = ps_sent ps"
  by (simp add: observe_phase_def split: prod.splits)

lemma read_on_sent [simp]: "ps_sent (read_on items ps) = ps_sent ps"
  by (simp add: read_on_def split: prod.splits)

lemma new_probe_sent [simp]: "ps_sent (new_probe reqs) = reqs"
  by (simp add: new_probe_def)

lemma watch_sent [simp]: "ps_sent (watch_grow e ps) = ps_sent ps"
  by (simp add: watch_grow_def)

lemma grow_spec:
  assumes "grow wallets ts pubkeys ps = (res, ps')" and "pubkeys = take k wallets" "k \<le> length wallets"
    and "\<forall>t \<in> fst ` set ts. t \<le> 25000"
  shows "res \<noteq> Inl ProbePanic
    \<and> (\<exists>extra. ps_sent ps' = ps_sent ps @ extra \<and> (\<forall>req \<in> set extra. asks_prefix wallets req))
    \<and> (\<forall>u. res = Inr u \<longrightarrow> (\<exists>k' \<ge> k. k' \<le> length wallets \<and> u = take k' wallets))"
  using assms
proof (induction ts arbitrary: pubkeys ps k)
  case Nil
  then show ?case by auto
next
  case (Cons te ts)
  obtain t e where te: "te = (t, e)" by (cases te)
  note prems = Cons.prems [unfolded te]
  let ?target = "min t (length wallets)"
  have len: "length pubkeys = k" using prems(2,3) by simp
  show ?case
  proof (cases "?target \<le> k")
    case True
    with prems len have "grow wallets ts pubkeys ps = (res, ps')" by (simp add: Let_def)
    from Cons.IH [OF this prems(2,3)] prems(4) show ?thesis by simp
  next
    case False
    then have kt: "k \<le> ?target" by linarith
    then have sl: "sub_slice wallets k ?target = Some (drop k (take ?target wallets))" by (simp add: sub_slice_def)
    have u: "pubkeys @ drop k (take ?target wallets) = take ?target wallets"
      using slice_extends [OF kt, of wallets] sl prems(2) by simp
    define sent where "sent = ps\<lparr>ps_sent := ps_sent ps @ [build_request (take ?target wallets)]\<rparr>"
    have asked: "asks_prefix wallets (build_request (take ?target wallets))"
      using prems(4) unfolding asks_prefix_def by (intro exI [of _ ?target]) auto
    have eq: "grow wallets ((t, e) # ts) pubkeys ps =
        (case ge_try e of
           TryClosed \<Rightarrow> (Inr (take ?target wallets), ps)
         | TryFull (Some err) \<Rightarrow> (Inl (ProbeFailed err), ps)
         | _ \<Rightarrow> if ct_errors (ps_counters (watch_grow e sent)) > ct_errors (ps_counters sent)
               then (Inr (take ?target wallets), watch_grow e sent)
               else grow wallets ts (take ?target wallets) (watch_grow e sent))"
      using False sl u len by (cases "ge_try e") (simp_all add: sent_def Let_def split: option.splits)
    have ih: "res \<noteq> Inl ProbePanic
        \<and> (\<exists>extra. ps_sent ps' = ps_sent ps @ extra \<and> (\<forall>req \<in> set extra. asks_prefix wallets req))
        \<and> (\<forall>u. res = Inr u \<longrightarrow> (\<exists>k' \<ge> k. k' \<le> length wallets \<and> u = take k' wallets))"
      if "grow wallets ts (take ?target wallets) (watch_grow e sent) = (res, ps')"
    proof -
      from Cons.IH [OF that refl] prems(4) obtain extra where
        "res \<noteq> Inl ProbePanic" "ps_sent ps' = ps_sent ps @ build_request (take ?target wallets) # extra"
        "\<forall>req \<in> set extra. asks_prefix wallets req"
        "\<forall>u. res = Inr u \<longrightarrow> (\<exists>k' \<ge> ?target. k' \<le> length wallets \<and> u = take k' wallets)"
        by (auto simp: sent_def)
      moreover from this(4) have "\<forall>u. res = Inr u \<longrightarrow> (\<exists>k' \<ge> k. k' \<le> length wallets \<and> u = take k' wallets)"
        using order_trans [OF kt] by blast
      ultimately show ?thesis
        using asked by (intro conjI exI [of _ "build_request (take ?target wallets) # extra"]) simp_all
    qed
    have stop: "\<exists>k' \<ge> k. k' \<le> length wallets \<and> take ?target wallets = take k' wallets"
      using kt by (intro exI [of _ ?target]) auto
    from prems(1) [unfolded eq] show ?thesis
      using ih stop asked
      by (auto simp: sent_def split: try_send.splits option.splits if_splits)
  qed
qed

lemma churn_spec:
  "(\<exists>c. fst (churn wallets i rs sent) = Inr c)
   \<and> (\<exists>reqs. snd (churn wallets i rs sent) = sent @ reqs \<and> (\<forall>req \<in> set reqs. asks_prefix wallets req))"
proof (induction wallets i rs sent rule: churn.induct)
  case (2 wallets i f r rs sent)
  let ?target = "min (if i mod 2 = 0 then 200 else 5000) (length wallets)"
  have sl: "sub_slice wallets 0 ?target = Some (take ?target wallets)" by (simp add: slice_0)
  have asked: "asks_prefix wallets (build_request (take ?target wallets))"
    unfolding asks_prefix_def by (intro exI [of _ ?target]) (auto simp: min_def)
  show ?case
  proof (cases r)
    case TrySent
    with 2(1) [OF refl sl] obtain c reqs where
      "fst (churn wallets (Suc i, f) rs (sent @ [build_request (take ?target wallets)])) = Inr c"
      "snd (churn wallets (Suc i, f) rs (sent @ [build_request (take ?target wallets)]))
         = (sent @ [build_request (take ?target wallets)]) @ reqs" "\<forall>req \<in> set reqs. asks_prefix wallets req"
      by blast
    with TrySent sl asked show ?thesis
      by (intro conjI exI [of _ "build_request (take ?target wallets) # reqs"]) (simp_all add: Let_def)
  qed (use 2(2) [OF refl sl] sl in \<open>simp_all add: Let_def\<close>)
qed simp

text \<open>How many items of a phase the reader counts, and how a counter moves.\<close>

fun read_prefix :: "(instant \<times> (string + subscribe_update)) list \<Rightarrow> subscribe_update list" where
  "read_prefix [] = []"
| "read_prefix ((now, Inr u) # items) = u # read_prefix items"
| "read_prefix ((now, Inl e) # items) = []"

definition is_account :: "update_oneof \<Rightarrow> bool" where
  "is_account x \<longleftrightarrow> (case x of UAccount _ \<Rightarrow> True | _ \<Rightarrow> False)"

definition is_slot :: "update_oneof \<Rightarrow> bool" where
  "is_slot x \<longleftrightarrow> (case x of USlot _ \<Rightarrow> True | _ \<Rightarrow> False)"

definition is_block_meta :: "update_oneof \<Rightarrow> bool" where
  "is_block_meta x \<longleftrightarrow> (case x of UBlockMeta _ \<Rightarrow> True | _ \<Rightarrow> False)"

definition is_pong_kind :: "update_oneof \<Rightarrow> bool" where
  "is_pong_kind x \<longleftrightarrow> (case x of UPong _ \<Rightarrow> True | _ \<Rightarrow> False)"

lemmas kind_defs = is_account_def is_slot_def is_block_meta_def is_pong_kind_def

definition kind_count :: "(update_oneof \<Rightarrow> bool) \<Rightarrow> (instant \<times> (string + subscribe_update)) list \<Rightarrow> nat" where
  "kind_count kind items = length (filter (\<lambda>u. \<exists>x. up_oneof u = Some x \<and> kind x) (read_prefix items))"

definition error_count :: "(instant \<times> (string + subscribe_update)) list \<Rightarrow> nat" where
  "error_count items = (if length (read_prefix items) < length items then 1 else 0)"

lemma read_items_counts:
  "ct_accounts (fst (read_items items (c, True))) = ct_accounts c + of_nat (kind_count is_account items)"
  "ct_slots (fst (read_items items (c, True))) = ct_slots c + of_nat (kind_count is_slot items)"
  "ct_blocks_meta (fst (read_items items (c, True))) = ct_blocks_meta c + of_nat (kind_count is_block_meta items)"
  "ct_pings (fst (read_items items (c, True))) = ct_pings c + of_nat (kind_count (\<lambda>x. x = UPing) items)"
  "ct_pongs (fst (read_items items (c, True))) = ct_pongs c + of_nat (kind_count is_pong_kind items)"
  "ct_errors (fst (read_items items (c, True))) = ct_errors c + of_nat (error_count items)"
  by (induction items arbitrary: c rule: read_prefix.induct)
    (simp_all add: kind_count_def error_count_def count_update_def kind_defs Let_def split: option.splits update_oneof.splits)

lemma kind_count_le: "kind_count kind items \<le> length items" "error_count items \<le> length items"
proof -
  have "length (read_prefix items) \<le> length items" by (induction items rule: read_prefix.induct) auto
  then show "kind_count kind items \<le> length items"
    unfolding kind_count_def using length_filter_le order_trans by blast
  show "error_count items \<le> length items" by (cases items) (auto simp: error_count_def)
qed

lemma checked_sub_add: "unat c + n < 2 ^ 64 \<Longrightarrow> checked_sub (c + of_nat n) c = Some (of_nat n)"
  by (simp add: checked_sub_def word_le_nat_alt unat_word_ariths unat_of_nat)

section \<open>Properties\<close>

lemma make_stream_spec:
  "make_stream env initial = Inl e \<Longrightarrow> e \<noteq> ProbePanic"
  "make_stream env initial = Inr req \<Longrightarrow> req = build_request initial"
  by (auto simp: make_stream_def split: option.splits)

lemma asks_initial: "\<not> length wallets < 100 \<Longrightarrow> asks_prefix wallets (build_request (take 50 wallets))"
  unfolding asks_prefix_def by (intro exI [of _ 50]) simp

lemma phases_in_range:
  assumes "run_phases env wallets = (res, ps')"
  shows "res \<noteq> Inl ProbePanic \<and> (\<forall>req \<in> set (ps_sent ps'). asks_prefix wallets req)
    \<and> ((\<exists>c. res = Inr c) \<longrightarrow> \<not> length wallets < 100)"
proof (cases "length wallets < 100")
  case True
  then show ?thesis using assms by (auto simp: run_phases_def)
next
  case False
  then have sl: "sub_slice wallets 0 50 = Some (take 50 wallets)" by (simp add: slice_0)
  show ?thesis
  proof (cases "make_stream (te_stream env) (take 50 wallets)")
    case (Inl e)
    with make_stream_spec(1) [OF Inl] False sl assms show ?thesis by (auto simp: run_phases_def Let_def)
  next
    case (Inr req)
    note req = make_stream_spec(2) [OF Inr]
    let ?ps = "observe_phase (te_baseline env) (new_probe [req])"
    obtain gres ps where g: "grow wallets (zip (grow_targets (length wallets)) (te_grow env)) (take 50 wallets) ?ps = (gres, ps)"
      by (cases "grow wallets (zip (grow_targets (length wallets)) (te_grow env)) (take 50 wallets) ?ps")
    have "\<forall>t \<in> fst ` set (zip (grow_targets (length wallets)) (te_grow env)). t \<le> 25000"
      by (auto simp: grow_targets_def dest!: set_zip_leftD)
    from grow_spec [OF g refl _ this] False obtain reqs where gs: "gres \<noteq> Inl ProbePanic"
      "ps_sent ps = req # reqs" "\<forall>req \<in> set reqs. asks_prefix wallets req"
      "\<forall>u. gres = Inr u \<longrightarrow> (\<exists>k' \<ge> 50. u = take k' wallets)"
      by auto
    have all: "\<forall>r \<in> set (ps_sent ps). asks_prefix wallets r" using gs(2,3) req asks_initial [OF False] by simp
    show ?thesis
    proof (cases gres)
      case (Inl e)
      with gs(1) all g \<open>make_stream _ _ = Inr req\<close> False sl assms show ?thesis by (auto simp: run_phases_def Let_def)
    next
      case (Inr u)
      with gs(4) obtain k' where "k' \<ge> 50" "u = take k' wallets" by blast
      then have "take 50 u = take 50 wallets" by (simp add: min_def)
      with churn_spec [of wallets "(0, 0)" "te_churn env" "ps_sent ps @ [build_request (take 50 u)]"]
        all asks_initial [OF False] Inr g \<open>make_stream _ _ = Inr req\<close> False sl assms
      show ?thesis by (auto simp: run_phases_def Let_def split: option.splits prod.splits)
    qed
  qed
qed

text \<open>The tool never slices out of range and only ever subscribes, on both streams, to a prefix of the wallet
  list, of at most 25000 addresses.\<close>

theorem probe_requests_in_range:
  assumes "run_test env = (res, ps)"
  shows "res \<noteq> Inl ProbePanic
    \<and> (\<forall>req \<in> set (ps_sent ps). \<exists>wallets. te_wallets env = Inr wallets \<and> asks_prefix wallets req)
    \<and> (\<forall>r req n. res = Inr r \<and> pr_second r = Inr (req, n) \<longrightarrow>
        (\<exists>wallets. te_wallets env = Inr wallets \<and> asks_prefix wallets req))"
proof (cases "te_wallets env")
  case (Inl e)
  then show ?thesis using assms by (auto simp: run_test_def)
next
  case (Inr wallets)
  obtain pres ps1 where p: "run_phases env wallets = (pres, ps1)" by (cases "run_phases env wallets")
  note range = phases_in_range [OF p]
  show ?thesis
  proof (cases pres)
    case (Inl e)
    then show ?thesis using assms range p \<open>te_wallets env = _\<close> by (auto simp: run_test_def)
  next
    case pres: (Inr c)
    with range have "\<not> length wallets < 100" by blast
    from asks_initial [OF this] show ?thesis
      using assms range p pres \<open>te_wallets env = _\<close> make_stream_spec(2) [of "te_second_stream env" "take 50 wallets"]
      by (auto simp: run_test_def Let_def split: sum.splits)
  qed
qed

text \<open>The differences the tool prints are exactly the numbers of items of each kind that the reader got up to
  its first error, without a subtraction below zero, as long as the counters have room.\<close>

theorem probe_delta_exact:
  assumes "\<forall>x \<in> {ct_accounts c, ct_slots c, ct_blocks_meta c, ct_pings c, ct_pongs c, ct_errors c}.
      unat x + length items < 2 ^ 64"
  shows "print_delta c (fst (read_items items (c, True))) =
    map (\<lambda>n. Some (of_nat n))
      [kind_count is_account items, kind_count is_slot items, kind_count is_block_meta items,
       kind_count (\<lambda>x. x = UPing) items, kind_count is_pong_kind items, error_count items]"
proof -
  have room: "checked_sub (x + of_nat n) x = Some (of_nat n)"
    if "unat x + length items < 2 ^ 64" "n \<le> length items" for x n
    using that by (intro checked_sub_add) linarith
  from assms show ?thesis by (simp add: print_delta_def read_items_counts room kind_count_le)
qed

end
