(* ===== verification/Unit_Tests.thy ===== *)
theory Unit_Tests
  imports Mux Supervisor
begin

text \<open>
  The repository's own unit tests (the \<open>tests\<close> modules of \<open>src/src/proxy/grpc_mux.rs\<close>,
  \<open>src/src/proxy/grpc_filter.rs\<close> and \<open>src/src/proxy/subscribe_supervisor.rs\<close>), run on the model: each
  test is a boolean with the assertions of its source, its helpers are definitions, and it is proved
  to pass. They check that the model does what the authors expect of the code. Where a test asserts
  one instance of a general fact the fact is proved beside it.
\<close>

section \<open>Multiplexer\<close>

definition meta :: "u64 \<Rightarrow> string \<Rightarrow> u64 \<Rightarrow> subscribe_update" where
  "meta slot blockhash bank_id =
    \<lparr>up_filters = [], up_oneof = Some (UBlockMeta \<lparr>bm_slot = slot, bm_blockhash = blockhash, bm_bank_id = bank_id\<rparr>),
     up_created_at = None\<rparr>"

definition dedup_keeps_competing_candidates_apart :: bool where
  "dedup_keeps_competing_candidates_apart \<longleftrightarrow>
     compute_dedup_key (meta 10 ''candA'' 1) \<noteq> compute_dedup_key (meta 10 ''candB'' 2)"

definition dedup_ignores_node_local_bank_id :: bool where
  "dedup_ignores_node_local_bank_id \<longleftrightarrow>
     compute_dedup_key (meta 10 ''candA'' 1) = compute_dedup_key (meta 10 ''candA'' 77)"

definition tx :: "u64 \<Rightarrow> bytes \<Rightarrow> u64 \<Rightarrow> subscribe_update" where
  "tx slot sig bank_id =
    \<lparr>up_filters = [],
     up_oneof = Some (UTransaction
       \<lparr>tu_transaction = Some \<lparr>ti_signature = sig, ti_is_vote = False, ti_transaction = None, ti_meta = None, ti_index = 0\<rparr>,
        tu_slot = slot, tu_bank_id = bank_id\<rparr>),
     up_created_at = None\<rparr>"

definition tx_status :: "u64 \<Rightarrow> bytes \<Rightarrow> subscribe_update" where
  "tx_status slot sig =
    \<lparr>up_filters = [],
     up_oneof = Some (UTransactionStatus \<lparr>ts_slot = slot, ts_signature = sig, ts_is_vote = False, ts_index = 0\<rparr>),
     up_created_at = None\<rparr>"

text \<open>The slot of a forwarded update; any other kind of update is a panic (\<open>None\<close>).\<close>

definition update_slot :: "subscribe_update \<Rightarrow> u64 option" where
  "update_slot u =
    (case up_oneof u of
       Some (UTransaction t) \<Rightarrow> Some (tu_slot t)
     | Some (UTransactionStatus t) \<Rightarrow> Some (ts_slot t)
     | _ \<Rightarrow> None)"

definition forwarded_slots :: "(string \<times> subscribe_update) list \<Rightarrow> u64 option list" where
  "forwarded_slots inputs =
    (let w = \<lparr>wk_cache = new_dedup_cache 30000,
              wk_shared = \<lparr>us_upstream_slot = 0, us_messages_received = 0, us_reconnects = 0,
                us_slots = new_slot_tracker, us_replay_on_reconnect = True\<rparr>,
              wk_nodes = [], wk_total_in = 0, wk_total_out = 0, wk_sent = []\<rparr>
     in map update_slot (wk_sent (run_dedup_worker (map (\<lambda>(node, u). Arrive 0 0 node u) inputs) w)))"

definition same_sig_same_slot_from_two_nodes_is_forwarded_once :: bool where
  "same_sig_same_slot_from_two_nodes_is_forwarded_once \<longleftrightarrow>
     forwarded_slots [(''region-a'', tx 10 ''sig1'' 1), (''region-b'', tx 10 ''sig1'' 77)] = [Some 10]"

definition same_sig_different_slot_is_forwarded_both_times :: bool where
  "same_sig_different_slot_is_forwarded_both_times \<longleftrightarrow>
     forwarded_slots
       [(''region-a'', tx 10 ''sig1'' 1), (''region-b'', tx 10 ''sig1'' 2),
        (''region-a'', tx 13 ''sig1'' 3), (''region-b'', tx 13 ''sig1'' 4)] = [Some 10, Some 13]"

definition tx_status_dedups_by_slot_and_signature :: bool where
  "tx_status_dedups_by_slot_and_signature \<longleftrightarrow>
     forwarded_slots
       [(''region-a'', tx_status 10 ''sig1''), (''region-b'', tx_status 10 ''sig1''),
        (''region-a'', tx_status 11 ''sig1'')] = [Some 10, Some 11]"

definition ping :: subscribe_update where
  "ping = \<lparr>up_filters = [], up_oneof = Some UPing, up_created_at = None\<rparr>"

text \<open>The forwarding task runs after five sends into a broadcast channel of capacity two.\<close>

definition first_lag_ends_stream_with_data_loss :: "decoder \<Rightarrow> (nat \<Rightarrow> string) \<Rightarrow> bool" where
  "first_lag_ends_stream_with_data_loss decode show_nat \<longleftrightarrow>
     (case subscribe_filtered show_nat 2 (gr_max_lag_events default_grpc_config)
             (from_request decode default_subscribe_request) (replicate 5 (Publish ping) @ [Poll SendOk, Poll SendOk]) [] of
        (sent, c) \<Rightarrow>
          (case cs_delivered c of [Failure status] \<Rightarrow> sta_code status = DataLoss | _ \<Rightarrow> False) \<and> cs_reason c \<noteq> None)"

definition slot_tracker_detects_missing_parent_but_not_skipped_slots :: bool where
  "slot_tracker_detects_missing_parent_but_not_skipped_slots \<longleftrightarrow>
     (case observe 0 100 None 0 new_slot_tracker of (r1, t) \<Rightarrow>
      case observe 0 101 (Some 100) 0 t of (r2, t) \<Rightarrow>
      case observe 0 103 (Some 101) 0 t of (r3, t) \<Rightarrow>
      case observe 0 105 (Some 104) 0 t of (r4, t) \<Rightarrow>
      case observe 0 200 (Some 199) 1 t of (r5, t') \<Rightarrow>
        r1 = None \<and> r2 = None \<and> r3 = None \<and> r4 = Some 104 \<and> sk_gaps t = 1 \<and> r5 = None \<and> sk_last_slot t' = 105)"

text \<open>Whatever jitter is drawn.\<close>

definition backoff_resets_after_healthy_stream :: "(nat \<Rightarrow> nat) \<Rightarrow> bool" where
  "backoff_resets_after_healthy_stream jitter \<longleftrightarrow>
     (case next_backoff jitter None new_backoff of (_, b) \<Rightarrow>
      case next_backoff jitter (Some 10) b of (_, b) \<Rightarrow>
      case next_backoff jitter (Some 60000) b of (s, _) \<Rightarrow> bo_cur b = 4000 \<and> s < 2000)"

section \<open>Filters\<close>

definition block_footer_metadata_is_served_by_mux :: "decoder \<Rightarrow> bool" where
  "block_footer_metadata_is_served_by_mux decode \<longleftrightarrow>
     (let f = from_request decode (default_subscribe_request
            \<lparr>sr_block_footer := [(''f'', \<lparr>ff_include_certificates = None\<rparr>)]\<rparr>)
      in has_mux_subscriptions f \<and> \<not> needs_direct_connection f)"

definition footer_certificates_route_direct :: "decoder \<Rightarrow> bool" where
  "footer_certificates_route_direct decode \<longleftrightarrow>
     needs_direct_connection (from_request decode (default_subscribe_request
       \<lparr>sr_block_footer := [(''f'', \<lparr>ff_include_certificates = Some True\<rparr>)]\<rparr>))"

definition entry_parent_updates_route_direct :: "decoder \<Rightarrow> bool" where
  "entry_parent_updates_route_direct decode \<longleftrightarrow>
     needs_direct_connection (from_request decode (default_subscribe_request
       \<lparr>sr_entry := [(''e'', \<lparr>ef_include_update_parent = Some True\<rparr>)]\<rparr>))"

section \<open>The tests pass\<close>

lemma dedup_key_tests: "dedup_keeps_competing_candidates_apart" "dedup_ignores_node_local_bank_id"
  by (simp_all add: dedup_keeps_competing_candidates_apart_def dedup_ignores_node_local_bank_id_def meta_def
      compute_dedup_key_def)

text \<open>In general: block metadata share a key exactly if slot and hash agree, transactions if slot and signature do.\<close>

lemma dedup_keys_general:
  "compute_dedup_key (meta s h b) = compute_dedup_key (meta s' h' b') \<longleftrightarrow> s = s' \<and> h = h'"
  "compute_dedup_key (tx s g b) = compute_dedup_key (tx s' g' b') \<longleftrightarrow> s = s' \<and> g = g'"
  "compute_dedup_key (tx_status s g) = compute_dedup_key (tx_status s' g') \<longleftrightarrow> s = s' \<and> g = g'"
  by (simp_all add: meta_def tx_def tx_status_def compute_dedup_key_def)

text \<open>The worker without known nodes: what it remembers and what it sends.\<close>

lemma worker_sends:
  assumes "wk_nodes w = []" "\<not> is_pong u" "compute_dedup_key u = Some k"
  shows "wk_nodes (mux_step (Arrive now ms n u) w) = []"
    and "dc_seen (wk_cache (mux_step (Arrive now ms n u) w)) = insert k (dc_seen (wk_cache w))"
    and "wk_sent (mux_step (Arrive now ms n u) w) = wk_sent w @ (if k \<in> dc_seen (wk_cache w) then [] else [u])"
  using assms by (auto simp: worker_step_def on_node_def check_and_insert_def Let_def)

lemma test_keys [simp]:
  "compute_dedup_key (tx s g b) = Some (KTransaction s g)" "compute_dedup_key (tx_status s g) = Some (KTransactionStatus s g)"
  "\<not> is_pong (tx s g b)" "\<not> is_pong (tx_status s g)" "update_slot (tx s g b) = Some s" "update_slot (tx_status s g) = Some s"
  by (simp_all add: tx_def tx_status_def compute_dedup_key_def is_pong_def update_slot_def)

lemma worker_tests:
  "same_sig_same_slot_from_two_nodes_is_forwarded_once"
  "same_sig_different_slot_is_forwarded_both_times"
  "tx_status_dedups_by_slot_and_signature"
  unfolding same_sig_same_slot_from_two_nodes_is_forwarded_once_def
    same_sig_different_slot_is_forwarded_both_times_def tx_status_dedups_by_slot_and_signature_def
  by (simp_all add: forwarded_slots_def run_dedup_worker_def worker_sends new_dedup_cache_def Let_def
      del: mux_step.simps)

lemma lag_test: "first_lag_ends_stream_with_data_loss decode show_nat"
  by (simp add: first_lag_ends_stream_with_data_loss_def subscribe_filtered_def new_client_stream_def broadcast_recv_def
      on_recv_def data_loss_def default_grpc_config_def default_grpc_max_lag_events_def numeral_eq_Suc Let_def)

lemma slot_tracker_test: "slot_tracker_detects_missing_parent_but_not_skipped_slots"
  by (simp add: slot_tracker_detects_missing_parent_but_not_skipped_slots_def observe_def new_slot_tracker_def Let_def)

lemma backoff_test: "jitter 500 \<le> 500 \<Longrightarrow> backoff_resets_after_healthy_stream jitter"
  by (simp add: backoff_resets_after_healthy_stream_def next_backoff_def new_backoff_def healthy_stream_min_def
      backoff_min_def backoff_max_def Let_def)

lemma filter_tests:
  "block_footer_metadata_is_served_by_mux decode" "footer_certificates_route_direct decode"
  "entry_parent_updates_route_direct decode"
  by (simp_all add: block_footer_metadata_is_served_by_mux_def footer_certificates_route_direct_def
      entry_parent_updates_route_direct_def from_request_def default_subscribe_request_def has_mux_subscriptions_def
      needs_direct_connection_def Let_def)

section \<open>Supervisor\<close>

text \<open>
  Both tests start one supervisor with one child, drop the response stream and wait until the number of
  drops is not zero; the counters of \<open>make_counters\<close> are those of \<open>empty_fleet\<close>. Their assertions on the
  gauges hold in every interleaving; the number of aborted children depends on the child, so for that
  the tests' runs are followed step by step.
\<close>

definition after_drop :: "fleet \<Rightarrow> bool" where
  "after_drop f \<longleftrightarrow> reach no_supervisors fleet_step f \<and> length (fl_sups f) = 1 \<and> sc_drops_total (fl_counters f) \<noteq> 0"

definition drop_during_idle_upstream_cancels_and_decrements :: bool where
  "drop_during_idle_upstream_cancels_and_decrements \<longleftrightarrow>
     (\<forall>f. after_drop f \<longrightarrow> fl_per_ip f (V4 1) = 0 \<and> sc_active (fl_counters f) = 0)
     \<and> (\<exists>f. after_drop f \<and> sc_forwarder_aborted_total (fl_counters f) = 0)"

definition stuck_forwarder_is_aborted :: bool where
  "stuck_forwarder_is_aborted \<longleftrightarrow>
     (\<forall>f. after_drop f \<longrightarrow> fl_per_ip f (V4 1) = 0)
     \<and> (\<exists>f. after_drop f \<and> sc_forwarder_aborted_total (fl_counters f) \<ge> 1)"

lemma counters_after_drop:
  assumes "reach no_supervisors fleet_step f" "length (fl_sups f) = 1" "sc_drops_total (fl_counters f) \<noteq> 0"
  shows "fl_per_ip f ip = 0 \<and> sc_active (fl_counters f) = 0"
proof -
  obtain s where s: "fl_sups f = [s]" using assms(2) by (auto simp: length_Suc_conv)
  have "counters_exact f" by (rule fleet_counters.inv_reach [OF assms(1)])
  with s assms(3) show ?thesis
    by (auto simp: counters_exact_def total_def holds_ip_def holds_active_def is_gone_def split: if_splits)
qed

definition lone :: "sup_phase \<Rightarrow> bool \<Rightarrow> nat \<Rightarrow> nat \<Rightarrow> u64 \<Rightarrow> supervisor_counters \<Rightarrow> fleet" where
  "lone ph dropped running exited n c =
    \<lparr>fl_per_ip = (\<lambda>_. 0)(V4 1 := n), fl_counters = c,
     fl_sups = [\<lparr>sv_ip = V4 1, sv_phase = ph, sv_dropped = dropped, sv_cancelled = (dropped \<and> ph \<noteq> Awaiting),
       sv_running = running, sv_exited = exited\<rparr>]\<rparr>"

abbreviation counted :: "u64 \<Rightarrow> u64 \<Rightarrow> u64 \<Rightarrow> supervisor_counters" where
  "counted a d b \<equiv> \<lparr>sc_active = a, sc_drops_total = d, sc_forwarder_aborted_total = b\<rparr>"

lemma lone_own: "own_step 0 (fl_sups (lone ph d r x n c) ! 0) (lone ph d r x n c) f \<Longrightarrow> fleet_step (lone ph d r x n c) f"
  by (rule fleet_step.own [of 0]) (simp_all add: lone_def)

lemma lone_outer: "outer_step 0 (fl_sups (lone ph d r x n c) ! 0) (lone ph d r x n c) f \<Longrightarrow> fleet_step (lone ph d r x n c) f"
  by (rule fleet_step.outer [of 0]) (simp_all add: lone_def)

lemma lone_steps:
  "fleet_step empty_fleet (lone Starting False 1 0 1 (counted 0 0 0))"
  "fleet_step (lone Starting False 1 0 1 (counted 0 0 0)) (lone Awaiting False 1 0 1 (counted 1 0 0))"
  "fleet_step (lone Awaiting False 1 0 1 (counted 1 0 0)) (lone Awaiting True 1 0 1 (counted 1 0 0))"
  "fleet_step (lone Awaiting True 1 0 1 (counted 1 0 0)) (lone Grace True 1 0 1 (counted 1 0 0))"
  "fleet_step (lone Releasing True 0 0 1 (counted 1 0 b)) (lone PerIpReleased True 0 0 0 (counted 1 0 b))"
  "fleet_step (lone PerIpReleased True 0 0 0 (counted 1 0 b)) (lone ActiveReleased True 0 0 0 (counted 0 0 b))"
  "fleet_step (lone ActiveReleased True 0 0 0 (counted 0 0 b)) (lone Gone True 0 0 0 (counted 0 1 b))"
proof -
  show "fleet_step empty_fleet (lone Starting False 1 0 1 (counted 0 0 0))"
    using fleet_step.start [of empty_fleet "V4 1" 1 False] by (simp add: start_supervisor_def empty_fleet_def lone_def)
  show "fleet_step (lone Starting False 1 0 1 (counted 0 0 0)) (lone Awaiting False 1 0 1 (counted 1 0 0))"
    using lone_own [OF own_step.activate, of Starting False 1 0 1 "counted 0 0 0"] by (simp add: lone_def count_def put_def)
  show "fleet_step (lone Awaiting False 1 0 1 (counted 1 0 0)) (lone Awaiting True 1 0 1 (counted 1 0 0))"
    using lone_outer [OF outer_step.stream_dropped, of Awaiting False 1 0 1 "counted 1 0 0"] by (simp add: lone_def put_def)
  show "fleet_step (lone Awaiting True 1 0 1 (counted 1 0 0)) (lone Grace True 1 0 1 (counted 1 0 0))"
    using lone_own [OF own_step.signal, of Awaiting True 1 0 1 "counted 1 0 0"] by (simp add: lone_def put_def)
  show "fleet_step (lone Releasing True 0 0 1 (counted 1 0 b)) (lone PerIpReleased True 0 0 0 (counted 1 0 b))"
    using lone_own [OF own_step.release_per_ip, of Releasing True 0 0 1 "counted 1 0 b"] by (simp add: lone_def put_def)
  show "fleet_step (lone PerIpReleased True 0 0 0 (counted 1 0 b)) (lone ActiveReleased True 0 0 0 (counted 0 0 b))"
    using lone_own [OF own_step.release_active, of PerIpReleased True 0 0 0 "counted 1 0 b"]
    by (simp add: lone_def count_def put_def)
  show "fleet_step (lone ActiveReleased True 0 0 0 (counted 0 0 b)) (lone Gone True 0 0 0 (counted 0 1 b))"
    using lone_own [OF own_step.count_drop, of ActiveReleased True 0 0 0 "counted 0 0 b"]
    by (simp add: lone_def count_def put_def)
qed

lemma lone_shutdown:
  "fleet_step\<^sup>*\<^sup>* empty_fleet (lone Grace True 1 0 1 (counted 1 0 0))"
  "fleet_step\<^sup>*\<^sup>* (lone Releasing True 0 0 1 (counted 1 0 b)) (lone Gone True 0 0 0 (counted 0 1 b))"
  using lone_steps by (meson converse_rtranclp_into_rtranclp rtranclp.rtrancl_refl)+

text \<open>A child that reacts to the cancellation is joined and not aborted.\<close>

lemma cooperative_child_run:
  "fleet_step\<^sup>*\<^sup>* empty_fleet (lone Gone True 0 0 0 (counted 0 1 0))"
proof -
  have "fleet_step (lone Grace True 1 0 1 (counted 1 0 0)) (lone Grace True 0 1 1 (counted 1 0 0))"
    using lone_outer [OF outer_step.child_exits, of Grace True 1 0 1 "counted 1 0 0" 0] by (simp add: lone_def put_def)
  moreover have "fleet_step (lone Grace True 0 1 1 (counted 1 0 0)) (lone Grace True 0 0 1 (counted 1 0 0))"
    using lone_own [OF own_step.join, of Grace True 0 1 1 "counted 1 0 0" 0] by (simp add: lone_def put_def)
  moreover have "fleet_step (lone Grace True 0 0 1 (counted 1 0 0)) (lone Settled True 0 0 1 (counted 1 0 0))"
    using lone_own [OF own_step.joined_all, of Grace True 0 0 1 "counted 1 0 0"]
    by (simp add: lone_def put_def joinset_len_def)
  moreover have "fleet_step (lone Settled True 0 0 1 (counted 1 0 0)) (lone Releasing True 0 0 1 (counted 1 0 0))"
    using lone_own [OF own_step.none_left, of Settled True 0 0 1 "counted 1 0 0"]
    by (simp add: lone_def put_def joinset_len_def)
  ultimately show ?thesis
    using lone_shutdown by (meson converse_rtranclp_into_rtranclp rtranclp_trans)
qed

text \<open>A child that ignores it outlives the grace period, is aborted and counted.\<close>

lemma stuck_child_run:
  "fleet_step\<^sup>*\<^sup>* empty_fleet (lone Gone True 0 0 0 (counted 0 1 1))"
proof -
  have "fleet_step (lone Grace True 1 0 1 (counted 1 0 0)) (lone Settled True 1 0 1 (counted 1 0 0))"
    using lone_own [OF own_step.grace_over, of Grace True 1 0 1 "counted 1 0 0"] by (simp add: lone_def put_def)
  moreover have "fleet_step (lone Settled True 1 0 1 (counted 1 0 0)) (lone Aborting True 1 0 1 (counted 1 0 1))"
    using lone_own [OF own_step.abort_all, of Settled True 1 0 1 "counted 1 0 0"]
    by (simp add: lone_def put_def count_def joinset_len_def)
  moreover have "fleet_step (lone Aborting True 1 0 1 (counted 1 0 1)) (lone Aborting True 0 1 1 (counted 1 0 1))"
    using lone_outer [OF outer_step.child_exits, of Aborting True 1 0 1 "counted 1 0 1" 0] by (simp add: lone_def put_def)
  moreover have "fleet_step (lone Aborting True 0 1 1 (counted 1 0 1)) (lone Aborting True 0 0 1 (counted 1 0 1))"
    using lone_own [OF own_step.join_aborted, of Aborting True 0 1 1 "counted 1 0 1" 0] by (simp add: lone_def put_def)
  moreover have "fleet_step (lone Aborting True 0 0 1 (counted 1 0 1)) (lone Releasing True 0 0 1 (counted 1 0 1))"
    using lone_own [OF own_step.aborted_all, of Aborting True 0 0 1 "counted 1 0 1"]
    by (simp add: lone_def put_def joinset_len_def)
  ultimately show ?thesis
    using lone_shutdown by (meson converse_rtranclp_into_rtranclp rtranclp_trans)
qed

lemma supervisor_tests: "drop_during_idle_upstream_cancels_and_decrements" "stuck_forwarder_is_aborted"
proof -
  have start: "reach no_supervisors fleet_step empty_fleet"
    by (rule reach.start) (simp add: no_supervisors_def empty_fleet_def)
  have run: "reach no_supervisors fleet_step f" if "fleet_step\<^sup>*\<^sup>* empty_fleet f" for f
    using that by (induction rule: rtranclp_induct) (auto intro: start reach.step)
  have one: "after_drop (lone Gone True 0 0 0 (counted 0 1 b))" if "fleet_step\<^sup>*\<^sup>* empty_fleet (lone Gone True 0 0 0 (counted 0 1 b))" for b
    using run [OF that] by (simp add: after_drop_def lone_def)
  show "drop_during_idle_upstream_cancels_and_decrements"
    unfolding drop_during_idle_upstream_cancels_and_decrements_def
    using one [OF cooperative_child_run] counters_after_drop by (auto simp: after_drop_def lone_def)
  show "stuck_forwarder_is_aborted"
    unfolding stuck_forwarder_is_aborted_def
    using one [OF stuck_child_run] counters_after_drop by (auto simp: after_drop_def lone_def)
qed

end
