(* ===== verification/Dashboard_Race.thy ===== *)
theory Dashboard_Race
  imports Dashboard
begin

text \<open>
  Administrators' requests that overlap (\<open>add_ip\<close> and \<open>remove_ip\<close> of \<open>src/src/dashboard/handlers.rs\<close>,
  \<open>IpWhitelist\<close> of \<open>src/src/middleware/ip_whitelist.rs\<close>, \<open>Config::save\<close>). The whitelist is read,
  cloned and stored back without a lock, the configuration is edited under its write lock, and it is
  saved under a read lock that several requests may hold. The configuration loses no edit in any
  interleaving; the running whitelist and the file on disk do not have that protection.
\<close>

section \<open>Edits\<close>

datatype edit = EditAdd whitelist_entry | EditRemove ip_addr

text \<open>The change to the clone of the whitelist, and the one to the configuration.\<close>

fun edit_clone :: "edit \<Rightarrow> ip_whitelist \<Rightarrow> ip_whitelist" where
  "edit_clone (EditAdd w) ips = add_ip (we_ip w) ips"
| "edit_clone (EditRemove ip) ips = remove_ip ip ips"

fun edit_config :: "edit \<Rightarrow> config \<Rightarrow> config" where
  "edit_config (EditAdd w) c = c\<lparr>cfg_whitelist := cfg_whitelist c @ [w]\<rparr>"
| "edit_config (EditRemove ip) c = c\<lparr>cfg_whitelist := filter (\<lambda>w. we_ip w \<noteq> ip) (cfg_whitelist c)\<rparr>"

datatype edit_phase = Begun | Cloned ip_whitelist | Stored | Committed

text \<open>\<open>ra_log\<close> is a ghost: the edits in the order in which they held the write lock.\<close>

record 'l race =
  ra_whitelist :: ip_whitelist
  ra_config :: config
  ra_limiter :: "'l rate_limiter"
  ra_edits :: "(edit \<times> edit_phase) list"
  ra_log :: "edit list"

definition race_init :: "'l governor \<Rightarrow> config \<Rightarrow> 'l race \<Rightarrow> bool" where
  "race_init gov c r \<longleftrightarrow>
     r = \<lparr>ra_whitelist = whitelist_set c, ra_config = c, ra_limiter = new_rate_limiter gov c, ra_edits = [], ra_log = []\<rparr>"

definition set_phase :: "nat \<Rightarrow> edit_phase \<Rightarrow> 'l race \<Rightarrow> 'l race" where
  "set_phase i ph r = r\<lparr>ra_edits := (ra_edits r)[i := (fst (ra_edits r ! i), ph)]\<rparr>"

inductive race_step :: "'l governor \<Rightarrow> 'l race \<Rightarrow> 'l race \<Rightarrow> bool" for gov r where
  request: "race_step gov r (r\<lparr>ra_edits := ra_edits r @ [(ed, Begun)]\<rparr>)"
| clone: "i < length (ra_edits r) \<Longrightarrow> ra_edits r ! i = (ed, Begun) \<Longrightarrow>
    race_step gov r (set_phase i (Cloned (ra_whitelist r)) r)"
| store: "i < length (ra_edits r) \<Longrightarrow> ra_edits r ! i = (ed, Cloned ips) \<Longrightarrow>
    race_step gov r (set_phase i Stored (r\<lparr>ra_whitelist := edit_clone ed ips\<rparr>))"
| commit: "i < length (ra_edits r) \<Longrightarrow> ra_edits r ! i = (ed, Stored) \<Longrightarrow>
    race_step gov r (set_phase i Committed
      (r\<lparr>ra_config := edit_config ed (ra_config r),
         ra_limiter := reload_limiters gov (edit_config ed (ra_config r)) (ra_limiter r),
         ra_log := ra_log r @ [ed]\<rparr>))"

inductive_cases race_stepE: "race_step gov r r'"

section \<open>One request alone\<close>

text \<open>The four segments in a row are what the handlers do to the shared state.\<close>

definition edit_alone :: "'l governor \<Rightarrow> edit \<Rightarrow> 'l dashboard \<Rightarrow> 'l dashboard" where
  "edit_alone gov ed d =
    (let d = d\<lparr>db_whitelist := edit_clone ed (db_whitelist d)\<rparr>;
         c = edit_config ed (db_config d)
     in d\<lparr>db_config := c, db_limiter := reload_limiters gov c (db_limiter d)\<rparr>)"

lemma handlers_are_edits:
  "auth d header \<Longrightarrow> de_parse_ip e (ar_ip body) = Some ip \<Longrightarrow>
    snd (handle_add_ip e header body d) = persist_config e (edit_alone (de_gov e) (EditAdd
      \<lparr>we_ip = ip, we_label = ar_label body, we_rps = ar_rps body, we_tps = ar_tps body,
       we_burst_rps = ar_burst_rps body, we_burst_tps = ar_burst_tps body\<rparr>) d)"
  "auth d header \<Longrightarrow> de_parse_ip e ip_str = Some ip \<Longrightarrow>
    snd (handle_remove_ip e header ip_str d) = persist_config e (edit_alone (de_gov e) (EditRemove ip) d)"
  by (simp_all add: handle_add_ip_def handle_remove_ip_def edit_alone_def set_config_def Let_def)

section \<open>The configuration\<close>

definition committed :: "(edit \<times> edit_phase) list \<Rightarrow> edit multiset" where
  "committed es = mset (map fst (filter (\<lambda>(ed, ph). ph = Committed) es))"

definition race_inv :: "'l governor \<Rightarrow> config \<Rightarrow> 'l race \<Rightarrow> bool" where
  "race_inv gov c r \<longleftrightarrow> ra_config r = fold edit_config (ra_log r) c
     \<and> committed (ra_edits r) = mset (ra_log r) \<and> ra_limiter r = new_rate_limiter gov (ra_config r)"

lemma committed_append: "committed (es @ [(ed, Begun)]) = committed es"
  by (simp add: committed_def)

lemma committed_update:
  assumes "i < length es" "es ! i = (ed, ph)" "ph \<noteq> Committed"
  shows "committed (es[i := (ed, ph')]) = (if ph' = Committed then add_mset ed (committed es) else committed es)"
proof -
  obtain pre post where "es = pre @ (ed, ph) # post" "length pre = i"
    using assms(1,2) by (metis id_take_nth_drop length_take min.absorb4)
  then show ?thesis using assms(3) by (auto simp: committed_def list_update_append)
qed

interpretation race: step_invariant "race_init gov c" "race_step gov" "race_inv gov c" for gov c
proof
  fix r :: "'a race" and r'
  assume inv: "race_inv gov c r" and "race_step gov r r'"
  from this(2) show "race_inv gov c r'"
    by cases (use inv in \<open>auto simp: race_inv_def set_phase_def committed_append committed_update reload_eq_new\<close>)
qed (simp add: race_init_def race_inv_def committed_def)

section \<open>Properties\<close>


text \<open>A request that removes an address overlaps with one that adds another: the clone taken before the
  removal is stored after it.\<close>

definition example_entry :: "ip_addr \<Rightarrow> whitelist_entry" where
  "example_entry ip =
    \<lparr>we_ip = ip, we_label = [], we_rps = None, we_tps = None, we_burst_rps = None, we_burst_tps = None\<rparr>"

definition example_overlap :: "config \<Rightarrow> ip_addr \<Rightarrow> ip_addr \<Rightarrow> nat race" where
  "example_overlap c old new =
    \<lparr>ra_whitelist = insert new (whitelist_set c),
     ra_config = edit_config (EditAdd (example_entry new)) (edit_config (EditRemove old) c),
     ra_limiter = new_rate_limiter example_governor
       (edit_config (EditAdd (example_entry new)) (edit_config (EditRemove old) c)),
     ra_edits = [(EditRemove old, Committed), (EditAdd (example_entry new), Committed)],
     ra_log = [EditRemove old, EditAdd (example_entry new)]\<rparr>"

lemma example_overlap_reach:
  "reach (race_init example_governor c) (race_step example_governor) (example_overlap c old new)"
proof -
  let ?rm = "EditRemove old" and ?add = "EditAdd (example_entry new)"
  let ?s = "\<lambda>w es. \<lparr>ra_whitelist = w, ra_config = c, ra_limiter = new_rate_limiter example_governor c, ra_edits = es,
    ra_log = []\<rparr>"
  let ?R = "reach (race_init example_governor c) (race_step example_governor)" and ?w = "whitelist_set c"
  have "?R (?s ?w [])" by (rule reach.start) (simp add: race_init_def)
  from reach.step [OF this race_step.request [of _ _ ?rm]] have "?R (?s ?w [(?rm, Begun)])" by simp
  from reach.step [OF this race_step.request [of _ _ ?add]] have "?R (?s ?w [(?rm, Begun), (?add, Begun)])" by simp
  from reach.step [OF this race_step.clone [of 1]]
  have "?R (?s ?w [(?rm, Begun), (?add, Cloned ?w)])" by (simp add: set_phase_def)
  from reach.step [OF this race_step.clone [of 0]]
  have "?R (?s ?w [(?rm, Cloned ?w), (?add, Cloned ?w)])" by (simp add: set_phase_def)
  from reach.step [OF this race_step.store [of 0]]
  have "?R (?s (remove_ip old ?w) [(?rm, Stored), (?add, Cloned ?w)])" by (simp add: set_phase_def)
  from reach.step [OF this race_step.store [of 1]]
  have "?R (?s (insert new ?w) [(?rm, Stored), (?add, Stored)])" by (simp add: set_phase_def add_ip_def example_entry_def)
  from reach.step [OF this race_step.commit [of 0]]
  have "?R ((?s (insert new ?w) [(?rm, Committed), (?add, Stored)])\<lparr>ra_config := edit_config ?rm c,
      ra_limiter := new_rate_limiter example_governor (edit_config ?rm c), ra_log := [?rm]\<rparr>)"
    by (simp add: set_phase_def reload_eq_new)
  from reach.step [OF this race_step.commit [of 1]] show ?thesis
    by (simp add: set_phase_def reload_eq_new example_overlap_def)
qed


text \<open>Both requests have been answered, the configuration and the file no longer list the address, and its
  requests are still let in, until the next reload by signal.\<close>

lemma removed_address_stays_allowed:
  assumes "old \<in> whitelist_set c" "old \<noteq> new"
  shows "\<exists>r. reach (race_init example_governor c) (race_step example_governor) r
    \<and> (\<forall>(ed, ph) \<in> set (ra_edits r). ph = Committed)
    \<and> old \<notin> whitelist_set (ra_config r) \<and> is_allowed (ra_whitelist r) old"
  using assms example_overlap_reach [of c old new]
  by (intro exI [of _ "example_overlap c old new"])
    (auto simp: example_overlap_def whitelist_set_def is_allowed_def example_entry_def)

section \<open>Concurrent saves\<close>

text \<open>
  \<open>std::fs::write\<close> opens the temporary file (creating or truncating it) and writes through the descriptor;
  \<open>std::fs::rename\<close> moves the name. Two requests that hold the read lock at once write the same
  contents through the same temporary name. Names point to files, descriptors keep their file.
\<close>

record disk =
  dk_names :: "string \<rightharpoonup> nat"
  dk_files :: "nat \<Rightarrow> string"
  dk_next :: nat

datatype save_phase = SaveBegun | SaveOpened nat | SaveWritten | SaveRenamed | SaveFailed

inductive save_step ::
    "string \<Rightarrow> string \<Rightarrow> string \<Rightarrow> disk \<times> save_phase list \<Rightarrow> disk \<times> save_phase list \<Rightarrow> bool" for tmp path contents where
  open_new: "i < length ps \<Longrightarrow> ps ! i = SaveBegun \<Longrightarrow> dk_names d tmp = None \<Longrightarrow>
    save_step tmp path contents (d, ps)
      (d\<lparr>dk_names := (dk_names d)(tmp \<mapsto> dk_next d), dk_files := (dk_files d)(dk_next d := []), dk_next := Suc (dk_next d)\<rparr>,
       ps[i := SaveOpened (dk_next d)])"
| open_old: "i < length ps \<Longrightarrow> ps ! i = SaveBegun \<Longrightarrow> dk_names d tmp = Some n \<Longrightarrow>
    save_step tmp path contents (d, ps) (d\<lparr>dk_files := (dk_files d)(n := [])\<rparr>, ps[i := SaveOpened n])"
| written: "i < length ps \<Longrightarrow> ps ! i = SaveOpened n \<Longrightarrow>
    save_step tmp path contents (d, ps) (d\<lparr>dk_files := (dk_files d)(n := contents)\<rparr>, ps[i := SaveWritten])"
| rename: "i < length ps \<Longrightarrow> ps ! i = SaveWritten \<Longrightarrow> dk_names d tmp = Some n \<Longrightarrow>
    save_step tmp path contents (d, ps)
      (d\<lparr>dk_names := (dk_names d)(tmp := None, path \<mapsto> n)\<rparr>, ps[i := SaveRenamed])"
| rename_missing: "i < length ps \<Longrightarrow> ps ! i = SaveWritten \<Longrightarrow> dk_names d tmp = None \<Longrightarrow>
    save_step tmp path contents (d, ps) (d, ps[i := SaveFailed])"

definition read_file :: "string \<Rightarrow> disk \<Rightarrow> string option" where
  "read_file path d = map_option (dk_files d) (dk_names d path)"

text \<open>A state between the truncation of the second request and its write in which the first request's
  rename has put the empty file in place of the configuration: a crash, or a reload by signal, at that
  moment finds an empty configuration file.\<close>

lemma concurrent_saves_expose_empty_file:
  assumes "dk_names d tmp = None" "tmp \<noteq> path"
  shows "\<exists>d' ps. (save_step tmp path contents)\<^sup>*\<^sup>* (d, [SaveBegun, SaveBegun]) (d', ps) \<and> read_file path d' = Some []"
proof (cases d)
  case (fields names files n)
  let ?d1 = "\<lparr>dk_names = names(tmp \<mapsto> n), dk_files = files(n := []), dk_next = Suc n\<rparr>"
  let ?d2 = "\<lparr>dk_names = names(tmp \<mapsto> n), dk_files = files(n := contents), dk_next = Suc n\<rparr>"
  let ?d4 = "\<lparr>dk_names = names(tmp := None, path \<mapsto> n), dk_files = files(n := []), dk_next = Suc n\<rparr>"
  have "save_step tmp path contents (d, [SaveBegun, SaveBegun]) (?d1, [SaveOpened n, SaveBegun])"
    using open_new [of 0 "[SaveBegun, SaveBegun]" d tmp path contents] assms fields by simp
  moreover have "save_step tmp path contents (?d1, [SaveOpened n, SaveBegun]) (?d2, [SaveWritten, SaveBegun])"
    using written [of 0 "[SaveOpened n, SaveBegun]" n tmp path contents ?d1] by simp
  moreover have "save_step tmp path contents (?d2, [SaveWritten, SaveBegun]) (?d1, [SaveWritten, SaveOpened n])"
    using open_old [of 1 "[SaveWritten, SaveBegun]" ?d2 tmp n path contents] by simp
  moreover have "save_step tmp path contents (?d1, [SaveWritten, SaveOpened n]) (?d4, [SaveRenamed, SaveOpened n])"
    using rename [of 0 "[SaveWritten, SaveOpened n]" ?d1 tmp n path contents] by simp
  ultimately have "(save_step tmp path contents)\<^sup>*\<^sup>* (d, [SaveBegun, SaveBegun]) (?d4, [SaveRenamed, SaveOpened n])"
    by (meson converse_rtranclp_into_rtranclp rtranclp.rtrancl_refl)
  moreover have "read_file path ?d4 = Some []" by (simp add: read_file_def)
  ultimately show ?thesis by blast
qed

text \<open>Every file under the temporary name or put in place by a rename is complete or about to be written by a
  request that has it open; the first rename finds the temporary file.\<close>

definition save_inv :: "string \<Rightarrow> string \<Rightarrow> string \<Rightarrow> disk \<times> save_phase list \<Rightarrow> bool" where
  "save_inv tmp path contents x \<longleftrightarrow>
     (case x of (d, ps) \<Rightarrow>
        (\<forall>n. dk_names d tmp = Some n \<longrightarrow> dk_files d n = contents \<or> SaveOpened n \<in> set ps)
        \<and> (SaveRenamed \<in> set ps \<longrightarrow>
             (\<exists>n. dk_names d path = Some n \<and> (dk_files d n = contents \<or> SaveOpened n \<in> set ps)))
        \<and> (SaveRenamed \<notin> set ps \<longrightarrow> SaveFailed \<notin> set ps
             \<and> (SaveWritten \<in> set ps \<or> (\<exists>n. SaveOpened n \<in> set ps) \<longrightarrow> dk_names d tmp \<noteq> None))
        \<and> (\<forall>p n. dk_names d p = Some n \<longrightarrow> n < dk_next d))"

definition saves_begun :: "string \<Rightarrow> disk \<times> save_phase list \<Rightarrow> bool" where
  "saves_begun tmp x \<longleftrightarrow>
     (case x of (d, ps) \<Rightarrow> set ps \<subseteq> {SaveBegun} \<and> dk_names d tmp = None
        \<and> (\<forall>p n. dk_names d p = Some n \<longrightarrow> n < dk_next d))"

lemma in_update:
  assumes "i < length ps" "ps ! i = old"
  shows "x \<in> set (ps[i := x])" "y \<noteq> old \<Longrightarrow> y \<noteq> x \<Longrightarrow> y \<in> set (ps[i := x]) \<longleftrightarrow> y \<in> set ps"
proof -
  show "x \<in> set (ps[i := x])" using assms(1) by (rule set_update_memI)
  assume "y \<noteq> old" "y \<noteq> x"
  then show "y \<in> set (ps[i := x]) \<longleftrightarrow> y \<in> set ps"
    using set_update_subset_insert [of ps i x] assms(2)
    by (metis in_set_conv_nth insertE length_list_update nth_list_update_neq subsetD)
qed

lemma save_inv_step:
  assumes "save_inv tmp path contents x" "save_step tmp path contents x y" "tmp \<noteq> path"
  shows "save_inv tmp path contents y"
  using assms(2)
proof cases
  case (open_new i ps d)
  have "SaveOpened m \<in> set (ps[i := SaveOpened (dk_next d)])" if "SaveOpened m \<in> set ps" for m
    using in_update [OF open_new(3,4)] that by (cases "m = dk_next d") auto
  with open_new assms(1,3) show ?thesis
    unfolding save_inv_def by (auto simp: in_update [OF open_new(3,4)] less_Suc_eq)
next
  case (open_old i ps d n)
  have "SaveOpened m \<in> set (ps[i := SaveOpened n])" if "SaveOpened m \<in> set ps" for m
    using in_update [OF open_old(3,4)] that by (cases "m = n") auto
  with open_old assms(1,3) show ?thesis
    unfolding save_inv_def by (auto simp: in_update [OF open_old(3,4)])
next
  case (written i ps n d)
  have keep: "SaveOpened m \<in> set (ps[i := SaveWritten])" if "SaveOpened m \<in> set ps" "m \<noteq> n" for m
    using in_update(2) [OF written(3,4)] that by auto
  have "SaveOpened n \<in> set ps" using written(3,4) nth_mem by metis
  with keep written assms(1,3) show ?thesis
    unfolding save_inv_def by (auto simp: in_update [OF written(3,4)])
next
  case (rename i ps d n)
  with assms(1,3) show ?thesis
    using nth_mem [OF rename(3)] unfolding save_inv_def by (auto simp: in_update [OF rename(3,4)])
next
  case (rename_missing i ps d)
  with assms(1,3) show ?thesis
    using nth_mem [OF rename_missing(3)] unfolding save_inv_def by (auto simp: in_update [OF rename_missing(3,4)])
qed

lemma save_inv_init: "saves_begun tmp x \<Longrightarrow> save_inv tmp path contents x"
  by (cases x) (auto simp: saves_begun_def save_inv_def subset_singleton_iff)

interpretation saves: step_invariant "\<lambda>x. tmp \<noteq> path \<and> saves_begun tmp x" "save_step tmp path contents"
    "\<lambda>x. tmp \<noteq> path \<and> save_inv tmp path contents x" for tmp path contents
  by unfold_locales (use save_inv_init save_inv_step in blast)+


definition example_disk :: disk where
  "example_disk = \<lparr>dk_names = [''c'' \<mapsto> 0], dk_files = (\<lambda>_. ''old''), dk_next = 1\<rparr>"

text \<open>Two saves: the second opens the file the first has written, and finds no temporary file to rename.\<close>

lemma example_save:
  "\<exists>d. reach (\<lambda>x. ''t'' \<noteq> ''c'' \<and> saves_begun ''t'' x) (save_step ''t'' ''c'' ''new'') (d, [SaveRenamed, SaveFailed])"
proof -
  let ?R = "reach (\<lambda>x. ''t'' \<noteq> ''c'' \<and> saves_begun ''t'' x) (save_step ''t'' ''c'' ''new'')"
  have "?R (example_disk, [SaveBegun, SaveBegun])"
    by (rule reach.start) (simp add: saves_begun_def example_disk_def)
  from reach.step [OF this open_new [of 0]] obtain d1 where
    "?R (d1, [SaveOpened 1, SaveBegun])" "dk_names d1 ''t'' = Some 1" by (auto simp: example_disk_def)
  from reach.step [OF this(1) written [of 0]] this(2) obtain d2 where
    "?R (d2, [SaveWritten, SaveBegun])" "dk_names d2 ''t'' = Some 1" by auto
  from reach.step [OF this(1) open_old [of 1]] this(2) obtain d3 where
    "?R (d3, [SaveWritten, SaveOpened 1])" "dk_names d3 ''t'' = Some 1" by auto
  from reach.step [OF this(1) written [of 1]] this(2) obtain d4 where
    "?R (d4, [SaveWritten, SaveWritten])" "dk_names d4 ''t'' = Some 1" by auto
  from reach.step [OF this(1) rename [of 0]] this(2) obtain d5 where
    "?R (d5, [SaveRenamed, SaveWritten])" "dk_names d5 ''t'' = None" by auto
  from reach.step [OF this(1) rename_missing [of 1]] this(2) show ?thesis by auto
qed


end
