(* ===== verification/Limiter_Race.thy ===== *)
theory Limiter_Race
  imports Rate_Limiter
begin

text \<open>
  Concurrent calls of the rate limiter (\<open>src/src/middleware/rate_limiter.rs\<close>). A check looks the
  address up, creates its limiters and inserts them in separate accesses to the concurrent map, and a
  reload stores the configuration, clears the map and refills it entry by entry while checks go
  on. A limiter is shared by reference: the table holds addresses of limiters in a heap, a check
  charges the one it got even if the table has another by then. Each access is atomic, the size
  (a sum over the map's shards) included; a check charges its one or two limiters in one step. The table of the keys is handled by the same code, without the size guard.
\<close>

section \<open>State and steps\<close>

datatype check_task =
    Idle
  | Guarding ip_addr bool \<comment> \<open>address, whether it sends a transaction\<close>
  | Sizing ip_addr bool \<comment> \<open>not in the table\<close>
  | Looking ip_addr bool
  | Missed ip_addr bool config \<comment> \<open>not in the table; the configuration it has read\<close>
  | Charging bool nat

datatype reload_task =
    NoReload
  | Clearing config
  | Inserting config "whitelist_entry list" \<comment> \<open>the entries still to insert\<close>

record 'l limiter_race =
  lr_heap :: "nat \<Rightarrow> 'l ip_limiters"
  lr_next :: nat
  lr_table :: "(ip_addr \<times> nat) list"
  lr_config :: config
  lr_checks :: "check_task list"
  lr_reloads :: "reload_task list"

text \<open>\<open>Arc::new\<close> and the insertion of the reference.\<close>

definition insert_limiters :: "ip_addr \<Rightarrow> 'l ip_limiters \<Rightarrow> 'l limiter_race \<Rightarrow> 'l limiter_race" where
  "insert_limiters ip l s =
    s\<lparr>lr_heap := (lr_heap s)(lr_next s := l), lr_next := Suc (lr_next s),
      lr_table := AList.update ip (lr_next s) (lr_table s)\<rparr>"

definition put_check :: "nat \<Rightarrow> check_task \<Rightarrow> 'l limiter_race \<Rightarrow> 'l limiter_race" where
  "put_check i t s = s\<lparr>lr_checks := (lr_checks s)[i := t]\<rparr>"

definition put_reload :: "nat \<Rightarrow> reload_task \<Rightarrow> 'l limiter_race \<Rightarrow> 'l limiter_race" where
  "put_reload i t s = s\<lparr>lr_reloads := (lr_reloads s)[i := t]\<rparr>"

text \<open>One access of the check in slot \<open>i\<close>, whose state is \<open>t\<close>.\<close>

inductive check_step :: "'l governor \<Rightarrow> nat \<Rightarrow> check_task \<Rightarrow> 'l limiter_race \<Rightarrow> 'l limiter_race \<Rightarrow> bool" for gov i t s where
  called: "t = Idle \<Longrightarrow> check_step gov i t s (put_check i (Guarding ip tx) s)"
| known: "t = Guarding ip tx \<Longrightarrow> map_of (lr_table s) ip = Some a \<Longrightarrow>
    check_step gov i t s (put_check i (Looking ip tx) s)"
| unknown: "t = Guarding ip tx \<Longrightarrow> map_of (lr_table s) ip = None \<Longrightarrow>
    check_step gov i t s (put_check i (Sizing ip tx) s)"
| refused: "t = Sizing ip tx \<Longrightarrow> length (lr_table s) \<ge> max_ip_limiters \<Longrightarrow>
    check_step gov i t s (put_check i Idle s)"
| admitted: "t = Sizing ip tx \<Longrightarrow> length (lr_table s) < max_ip_limiters \<Longrightarrow>
    check_step gov i t s (put_check i (Looking ip tx) s)"
| found: "t = Looking ip tx \<Longrightarrow> map_of (lr_table s) ip = Some a \<Longrightarrow> check_step gov i t s (put_check i (Charging tx a) s)"
| missed: "t = Looking ip tx \<Longrightarrow> map_of (lr_table s) ip = None \<Longrightarrow>
    check_step gov i t s (put_check i (Missed ip tx (lr_config s)) s)"
| created: "t = Missed ip tx c \<Longrightarrow>
    check_step gov i t s (put_check i (Charging tx (lr_next s)) (insert_limiters ip
      (make_limiters gov (get_ip_rps c ip) (get_ip_tps c ip) (get_ip_burst_rps c ip) (get_ip_burst_tps c ip)) s))"
| charged: "t = Charging tx a \<Longrightarrow>
    check_step gov i t s (put_check i Idle (s\<lparr>lr_heap := (lr_heap s)(a := snd (consume gov now tx (lr_heap s a)))\<rparr>))"

text \<open>One access of the reload in slot \<open>i\<close>; no whitelist is longer than \<open>w\<close>.\<close>

inductive reload_step :: "'l governor \<Rightarrow> nat \<Rightarrow> nat \<Rightarrow> reload_task \<Rightarrow> 'l limiter_race \<Rightarrow> 'l limiter_race \<Rightarrow> bool"
  for gov w i t s where
  stored: "t = NoReload \<Longrightarrow> length (cfg_whitelist c) \<le> w \<Longrightarrow>
    reload_step gov w i t s (put_reload i (Clearing c) (s\<lparr>lr_config := c\<rparr>))"
| cleared: "t = Clearing c \<Longrightarrow>
    reload_step gov w i t s (put_reload i (Inserting c (cfg_whitelist c)) (s\<lparr>lr_table := []\<rparr>))"
| inserted: "t = Inserting c (e # es) \<Longrightarrow>
    reload_step gov w i t s (put_reload i (Inserting c es) (insert_limiters (we_ip e) (whitelist_limiters gov c e) s))"
| finished: "t = Inserting c [] \<Longrightarrow> reload_step gov w i t s (put_reload i NoReload s)"

inductive limiter_race_step :: "'l governor \<Rightarrow> nat \<Rightarrow> 'l limiter_race \<Rightarrow> 'l limiter_race \<Rightarrow> bool" for gov w s where
  check: "i < length (lr_checks s) \<Longrightarrow> check_step gov i (lr_checks s ! i) s s' \<Longrightarrow> limiter_race_step gov w s s'"
| reload: "i < length (lr_reloads s) \<Longrightarrow> reload_step gov w i (lr_reloads s ! i) s s' \<Longrightarrow> limiter_race_step gov w s s'"

inductive_cases check_stepE: "check_step gov i t s s'"
inductive_cases reload_stepE: "reload_step gov w i t s s'"
inductive_cases limiter_race_stepE: "limiter_race_step gov w s s'"

text \<open>At rest: \<open>n\<close> slots for checks, \<open>m\<close> for reloads, a table of at most the guarded size.\<close>

definition limiter_race_init :: "nat \<Rightarrow> nat \<Rightarrow> 'l limiter_race \<Rightarrow> bool" where
  "limiter_race_init n m s \<longleftrightarrow> lr_checks s = replicate n Idle \<and> lr_reloads s = replicate m NoReload
     \<and> length (lr_table s) \<le> max_ip_limiters"

section \<open>The bound\<close>

text \<open>The insertions that are still to come: of checks that passed the guard and whose address is not in the
  table, and of reloads under way.\<close>

fun owes :: "(ip_addr \<times> nat) list \<Rightarrow> check_task \<Rightarrow> nat" where
  "owes table (Looking ip tx) = (if map_of table ip = None then 1 else 0)"
| "owes table (Missed ip tx c) = (if map_of table ip = None then 1 else 0)"
| "owes table _ = 0"

fun to_insert :: "reload_task \<Rightarrow> nat" where
  "to_insert NoReload = 0"
| "to_insert (Clearing c) = 0"
| "to_insert (Inserting c es) = length es"

definition debt :: "'l limiter_race \<Rightarrow> nat" where
  "debt s = sum_list (map (owes (lr_table s)) (lr_checks s)) + sum_list (map to_insert (lr_reloads s))"

fun reload_short :: "nat \<Rightarrow> reload_task \<Rightarrow> bool" where
  "reload_short w NoReload = True"
| "reload_short w (Clearing c) = (length (cfg_whitelist c) \<le> w)"
| "reload_short w (Inserting c es) = (length es \<le> w)"

definition race_bounded :: "nat \<Rightarrow> nat \<Rightarrow> nat \<Rightarrow> 'l limiter_race \<Rightarrow> bool" where
  "race_bounded n m w s \<longleftrightarrow> length (lr_checks s) = n \<and> length (lr_reloads s) = m
     \<and> list_all (reload_short w) (lr_reloads s) \<and> length (lr_table s) + debt s \<le> max_ip_limiters + n + m * w"

lemma sum_list_bound: "(\<And>x. x \<in> set xs \<Longrightarrow> f x \<le> (b :: nat)) \<Longrightarrow> sum_list (map f xs) \<le> length xs * b"
  by (induction xs) (auto simp: add_mono)

lemma owes_le: "owes table t \<le> 1"
  by (cases "(table, t)" rule: owes.cases) auto

lemma debt_le:
  "list_all (reload_short w) (lr_reloads s) \<Longrightarrow> debt s \<le> length (lr_checks s) + length (lr_reloads s) * w"
proof -
  assume "list_all (reload_short w) (lr_reloads s)"
  then have "to_insert t \<le> w" if "t \<in> set (lr_reloads s)" for t
    using that by (cases t) (auto simp: list_all_iff)
  then show ?thesis
    unfolding debt_def using sum_list_bound [of "lr_checks s" "owes (lr_table s)" 1] owes_le
      sum_list_bound [of "lr_reloads s" to_insert w] by (simp add: add_mono)
qed

lemma sum_list_upd:
  fixes f :: "'x \<Rightarrow> nat"
  shows "i < length xs \<Longrightarrow> sum_list (map f (xs[i := y])) + f (xs ! i) = sum_list (map f xs) + f y"
  by (induction xs arbitrary: i) (auto split: nat.splits)

lemma debt_put:
  "i < length (lr_checks s) \<Longrightarrow>
    debt (put_check i t s) + owes (lr_table s) (lr_checks s ! i) = debt s + owes (lr_table s) t"
  "i < length (lr_reloads s) \<Longrightarrow> debt (put_reload i r s) + to_insert (lr_reloads s ! i) = debt s + to_insert r"
  using sum_list_upd [of i "lr_checks s" "owes (lr_table s)" t] sum_list_upd [of i "lr_reloads s" to_insert r]
  by (simp_all add: debt_def put_check_def put_reload_def)

lemma debt_insert: "debt (insert_limiters ip l s) \<le> debt s"
proof -
  have "owes (AList.update ip a table) t \<le> owes table t" for a table t
    by (cases "(table, t)" rule: owes.cases) (auto simp: alist_simps)
  then have "sum_list (map (owes (AList.update ip a table)) ts) \<le> sum_list (map (owes table) ts)" for a table ts
    by (intro sum_list_mono) auto
  then show ?thesis by (simp add: debt_def insert_limiters_def)
qed

lemma length_insert:
  "length (lr_table (insert_limiters ip l s)) = length (lr_table s) + (if map_of (lr_table s) ip = None then 1 else 0)"
  by (simp add: insert_limiters_def length_update map_of_None_iff)

lemma insert_put:
  "put_check i t (insert_limiters ip l s) = insert_limiters ip l (put_check i t s)"
  "put_reload i r (insert_limiters ip l s) = insert_limiters ip l (put_reload i r s)"
  by (simp_all add: insert_limiters_def put_check_def put_reload_def)

lemma race_frames [simp]:
  "lr_table (put_check i t s) = lr_table s" "lr_table (put_reload i r s) = lr_table s"
  "length (lr_checks (put_check i t s)) = length (lr_checks s)" "lr_checks (put_reload i r s) = lr_checks s"
  "length (lr_reloads (put_reload i r s)) = length (lr_reloads s)" "lr_reloads (put_check i t s) = lr_reloads s"
  "lr_checks (insert_limiters ip l s) = lr_checks s" "lr_reloads (insert_limiters ip l s) = lr_reloads s"
  "debt (s\<lparr>lr_config := c\<rparr>) = debt s" "debt (s\<lparr>lr_heap := h\<rparr>) = debt s"
  by (simp_all add: put_check_def put_reload_def insert_limiters_def debt_def)

lemma short_put:
  "list_all (reload_short w) (lr_reloads s) \<Longrightarrow> reload_short w r \<Longrightarrow> list_all (reload_short w) (lr_reloads (put_reload i r s))"
  using set_update_subset_insert [of "lr_reloads s" i r] by (auto simp: list_all_iff put_reload_def)

lemma bounded_check:
  assumes "race_bounded n m w s" "i < length (lr_checks s)" "check_step gov i (lr_checks s ! i) s s'"
  shows "race_bounded n m w s'"
  using assms(3)
proof cases
  case (admitted ip tx)
  moreover have "debt s' \<le> n + m * w"
    using assms(1) debt_le [of w s'] admitted by (simp add: race_bounded_def)
  ultimately show ?thesis using assms(1) by (simp add: race_bounded_def)
next
  case (known ip tx a)
  with debt_put(1) [OF assms(2), of "Looking ip tx"] assms(1) show ?thesis by (simp add: race_bounded_def)
next
  case (unknown ip tx)
  with debt_put(1) [OF assms(2), of "Sizing ip tx"] assms(1) show ?thesis by (simp add: race_bounded_def)
next
  case (created ip tx c)
  let ?l = "make_limiters gov (get_ip_rps c ip) (get_ip_tps c ip) (get_ip_burst_rps c ip) (get_ip_burst_tps c ip)"
  let ?p = "put_check i (Charging tx (lr_next s)) s"
  have "debt ?p + (if map_of (lr_table s) ip = None then 1 else 0) = debt s"
    using debt_put(1) [OF assms(2), of "Charging tx (lr_next s)"] created by simp
  with debt_insert [of ip ?l ?p] assms(1) show ?thesis
    using length_insert [of ip ?l ?p] by (simp add: created insert_put race_bounded_def split: if_splits)
next
  case (called ip tx)
  with debt_put(1) [OF assms(2), of "Guarding ip tx"] assms(1) show ?thesis by (simp add: race_bounded_def)
next
  case (refused ip tx)
  with debt_put(1) [OF assms(2), of Idle] assms(1) show ?thesis by (simp add: race_bounded_def)
next
  case (found ip tx a)
  with debt_put(1) [OF assms(2), of "Charging tx a"] assms(1) show ?thesis by (simp add: race_bounded_def)
next
  case (missed ip tx)
  with debt_put(1) [OF assms(2), of "Missed ip tx (lr_config s)"] assms(1) show ?thesis by (simp add: race_bounded_def)
next
  case (charged tx a now)
  let ?h = "s\<lparr>lr_heap := (lr_heap s)(a := snd (consume gov now tx (lr_heap s a)))\<rparr>"
  from debt_put(1) [of i ?h Idle] assms charged show ?thesis by (simp add: race_bounded_def)
qed

lemma bounded_reload:
  assumes "race_bounded n m w s" "i < length (lr_reloads s)" "reload_step gov w i (lr_reloads s ! i) s s'"
  shows "race_bounded n m w s'"
  using assms(3)
proof cases
  case (stored c)
  with debt_put(2) [of i "s\<lparr>lr_config := c\<rparr>" "Clearing c"] assms(1,2) short_put [of w "s\<lparr>lr_config := c\<rparr>" "Clearing c" i]
  show ?thesis by (simp add: race_bounded_def)
next
  case (cleared c)
  have "reload_short w (lr_reloads s ! i)" using assms(1,2) by (auto simp: race_bounded_def list_all_iff)
  then have sh: "list_all (reload_short w) (lr_reloads s')"
    using assms(1) cleared short_put [of w "s\<lparr>lr_table := []\<rparr>" "Inserting c (cfg_whitelist c)" i]
    by (simp add: race_bounded_def)
  moreover have "length (lr_table s') = 0" using cleared by simp
  ultimately show ?thesis
    using assms(1) debt_le [OF sh] cleared by (simp add: race_bounded_def)
next
  case (inserted c e es)
  let ?p = "put_reload i (Inserting c es) s"
  have "debt ?p + 1 = debt s" using debt_put(2) [OF assms(2), of "Inserting c es"] inserted by simp
  moreover have "reload_short w (Inserting c es)"
    using assms(1,2) inserted by (auto simp: race_bounded_def list_all_iff dest!: bspec [OF _ nth_mem])
  ultimately show ?thesis
    using assms(1) debt_insert [of "we_ip e" "whitelist_limiters gov c e" ?p] short_put [of w s "Inserting c es" i]
      length_insert [of "we_ip e" "whitelist_limiters gov c e" ?p]
    by (simp add: inserted insert_put race_bounded_def split: if_splits)
next
  case (finished c)
  with debt_put(2) [OF assms(2), of NoReload] assms(1) short_put [of w s NoReload i] show ?thesis
    by (simp add: race_bounded_def)
qed

interpretation limiter_race: step_invariant "limiter_race_init n m" "limiter_race_step gov w" "race_bounded n m w"
  for n m w gov
proof
  fix s :: "'a limiter_race" assume "limiter_race_init n m s"
  then show "race_bounded n m w s"
    by (simp add: limiter_race_init_def race_bounded_def debt_def list_all_iff sum_list_replicate)
next
  fix s t :: "'a limiter_race" assume "race_bounded n m w s" "limiter_race_step gov w s t"
  then show "race_bounded n m w t" by (auto elim!: limiter_race_stepE intro: bounded_check bounded_reload)
qed

section \<open>Properties\<close>


text \<open>A check that misses while the old configuration is in force, is overtaken by a whole reload, and then
  inserts what it has made.\<close>

definition race_at_rest :: "config \<Rightarrow> (nat \<Rightarrow> 'l ip_limiters) \<Rightarrow> 'l limiter_race" where
  "race_at_rest c h = \<lparr>lr_heap = h, lr_next = 0, lr_table = [], lr_config = c, lr_checks = [Idle], lr_reloads = [NoReload]\<rparr>"

definition configured_limiters :: "'l governor \<Rightarrow> config \<Rightarrow> ip_addr \<Rightarrow> 'l ip_limiters" where
  "configured_limiters gov c ip =
    make_limiters gov (get_ip_rps c ip) (get_ip_tps c ip) (get_ip_burst_rps c ip) (get_ip_burst_tps c ip)"

definition race_overtaken :: "'l governor \<Rightarrow> config \<Rightarrow> config \<Rightarrow> whitelist_entry \<Rightarrow> (nat \<Rightarrow> 'l ip_limiters) \<Rightarrow> 'l limiter_race" where
  "race_overtaken gov c c' e h =
    \<lparr>lr_heap = h(0 := whitelist_limiters gov c' e, 1 := snd (consume gov 0 False (configured_limiters gov c (we_ip e)))),
     lr_next = 2, lr_table = [(we_ip e, 1)], lr_config = c', lr_checks = [Idle], lr_reloads = [NoReload]\<rparr>"

lemma check_reach:
  "reach init (limiter_race_step gov w) s \<Longrightarrow> lr_checks s = [t] \<Longrightarrow> check_step gov 0 t s s' \<Longrightarrow>
    reach init (limiter_race_step gov w) s'"
  by (rule reach.step, assumption, rule limiter_race_step.check [of 0]) simp_all

lemma reload_reach:
  "reach init (limiter_race_step gov w) s \<Longrightarrow> lr_reloads s = [t] \<Longrightarrow> reload_step gov w 0 t s s' \<Longrightarrow>
    reach init (limiter_race_step gov w) s'"
  by (rule reach.step, assumption, rule limiter_race_step.reload [of 0]) simp_all

lemma race_overtaken_reach:
  assumes "cfg_whitelist c' = [e]"
  shows "reach (\<lambda>s. s = race_at_rest c h) (limiter_race_step gov 1) (race_overtaken gov c c' e h)"
proof -
  let ?R = "reach (\<lambda>s. s = race_at_rest c h) (limiter_race_step gov 1)" and ?ip = "we_ip e"
  let ?s = "\<lambda>t c' r. \<lparr>lr_heap = h, lr_next = 0, lr_table = [], lr_config = c', lr_checks = [t], lr_reloads = [r]\<rparr>"
  let ?h = "h(0 := whitelist_limiters gov c' e)"
  let ?s1 = "\<lambda>r. \<lparr>lr_heap = ?h, lr_next = 1, lr_table = [(?ip, 0)], lr_config = c',
    lr_checks = [Missed ?ip False c], lr_reloads = [r]\<rparr>"
  have "?R (?s Idle c NoReload)" by (rule reach.start) (simp add: race_at_rest_def)
  from check_reach [OF this _ check_step.called [of _ _ _ _ ?ip False]]
  have "?R (?s (Guarding ?ip False) c NoReload)" by (simp add: put_check_def)
  from check_reach [OF this _ check_step.unknown [OF refl, where ip = ?ip and tx = False]] have "?R (?s (Sizing ?ip False) c NoReload)" by (simp add: put_check_def)
  from check_reach [OF this _ check_step.admitted [OF refl, where ip = ?ip and tx = False]] have "?R (?s (Looking ?ip False) c NoReload)"
    by (simp add: put_check_def max_ip_limiters_def)
  from check_reach [OF this _ check_step.missed [OF refl, where ip = ?ip and tx = False]] have "?R (?s (Missed ?ip False c) c NoReload)" by (simp add: put_check_def)
  from reload_reach [OF this _ reload_step.stored [OF refl, where c = c']] have "?R (?s (Missed ?ip False c) c' (Clearing c'))"
    using assms by (simp add: put_reload_def)
  from reload_reach [OF this _ reload_step.cleared [OF refl, where c = c']] have "?R (?s (Missed ?ip False c) c' (Inserting c' [e]))"
    using assms by (simp add: put_reload_def)
  from reload_reach [OF this _ reload_step.inserted [OF refl, where c = c' and e = e and es = "[]"]] have "?R (?s1 (Inserting c' []))"
    by (simp add: put_reload_def insert_limiters_def)
  from reload_reach [OF this _ reload_step.finished [OF refl, where c = c']] have "?R (?s1 NoReload)" by (simp add: put_reload_def)
  from check_reach [OF this _ check_step.created [OF refl, where ip = ?ip and tx = False and c = c]]
  have "?R \<lparr>lr_heap = ?h(1 := configured_limiters gov c ?ip), lr_next = 2, lr_table = [(?ip, 1)], lr_config = c',
    lr_checks = [Charging False 1], lr_reloads = [NoReload]\<rparr>"
    by (simp add: put_check_def insert_limiters_def configured_limiters_def numeral_2_eq_2)
  from check_reach [OF this _ check_step.charged [OF refl, where tx = False and a = 1 and now = 0]] show ?thesis
    by (simp add: put_check_def race_overtaken_def)
qed

text \<open>The reload has finished, no request is in the limiter, and the address is limited by the quota of the
  configuration that was replaced, until the next reload.\<close>

lemma stale_limiter_survives_reload:
  assumes "cfg_whitelist c' = [e]"
  shows "\<exists>s a. reach (\<lambda>s. s = race_at_rest c h) (limiter_race_step gov 1) s
    \<and> lr_config s = c' \<and> lr_checks s = [Idle] \<and> lr_reloads s = [NoReload]
    \<and> map_of (lr_table s) (we_ip e) = Some a
    \<and> lr_heap s a = snd (consume gov 0 False (configured_limiters gov c (we_ip e)))"
  using race_overtaken_reach [OF assms, of c h gov] unfolding race_overtaken_def by fastforce


end
