(* ===== verification/Error.thy ===== *)
theory Error
  imports Prelude
begin

text \<open>
  The error type (\<open>src/src/error.rs\<close>): its cases, their messages and the conversions from the errors of
  the HTTP stack, which enter as their printed form. No other file of the program uses it.
\<close>

datatype proxy_error =
    Unauthorized
  | RateLimited bool \<comment> \<open>\<open>is_tps\<close>\<close>
  | UpstreamError string
  | NoHealthyNodes
  | AllUpstreamsFailed
  | BodyTooLarge
  | InvalidRequest string
  | InternalError string

fun show_proxy_error :: "proxy_error \<Rightarrow> string" where
  "show_proxy_error Unauthorized = ''Unauthorized''"
| "show_proxy_error (RateLimited is_tps) =
    (if is_tps then ''TPS rate limit exceeded'' else ''RPS rate limit exceeded'')"
| "show_proxy_error (UpstreamError e) = ''Upstream error: '' @ e"
| "show_proxy_error NoHealthyNodes = ''No healthy upstream nodes''"
| "show_proxy_error AllUpstreamsFailed = ''All upstream nodes failed''"
| "show_proxy_error BodyTooLarge = ''Request body too large''"
| "show_proxy_error (InvalidRequest e) = ''Invalid request: '' @ e"
| "show_proxy_error (InternalError e) = ''Internal error: '' @ e"

definition from_hyper_error :: "('e \<Rightarrow> string) \<Rightarrow> 'e \<Rightarrow> proxy_error" where
  "from_hyper_error to_string e = UpstreamError (to_string e)"

definition from_client_error :: "('e \<Rightarrow> string) \<Rightarrow> 'e \<Rightarrow> proxy_error" where
  "from_client_error to_string e = UpstreamError (to_string e)"

text \<open>A message identifies its error.\<close>

lemma show_proxy_error_inj: "show_proxy_error e = show_proxy_error e' \<longleftrightarrow> e = e'"
  by (cases e; cases e') (auto split: if_splits)

lemma converted_message:
  "show_proxy_error (from_hyper_error to_string e) = ''Upstream error: '' @ to_string e"
  "show_proxy_error (from_client_error to_string e) = ''Upstream error: '' @ to_string e"
  by (simp_all add: from_hyper_error_def from_client_error_def)

end
