(* ===== verification/Spec2Isabelle.thy ===== *)
theory Spec2Isabelle
  imports System Shadow_Test Unit_Tests Dashboard_Race Limiter_Race Error
begin

text \<open>
  \<^bold>\<open>A verification library of the Solana RPC cluster proxy\<close>

  The program is a proxy in front of several Solana nodes. It loads a TOML configuration, probes the
  nodes, and offers authorised clients JSON-RPC over HTTP, WebSockets, Yellowstone gRPC streams and
  aRPC streams, each routed to a healthy node; a dashboard administers addresses and API keys while
  the process runs. All parts share the access lists, rate limiters and statistics.

  \<^bold>\<open>Theories and sources\<close> (paths under \<open>src/src\<close>)

  \<^item> \<open>Prelude\<close>: machine words, standard library functions, association lists for hash maps,
    reachability (\<open>reach\<close>) and the locale \<open>step_invariant\<close> that every interleaved component interprets.
  \<^item> \<open>Config\<close> (\<open>config.rs\<close>): the configuration records, defaults, \<open>load\<close>, \<open>validate\<close>, \<open>save\<close>. Saving is
    atomic and loads back; a loaded configuration has a node.
  \<^item> \<open>Health\<close> (\<open>cluster/health.rs\<close>): node health, probes and the tick of the checker. Ejection after the
    failure threshold, restoration after the success threshold, no ejection without failures, lag.
  \<^item> \<open>Router\<close> (\<open>cluster/router.rs\<close>, \<open>cluster/mod.rs\<close>): node choice, transaction fan-out, heavy and ordinary
    reads. The locales \<open>node_picker\<close> and \<open>forward_policy\<close> are what the front ends rely on.
  \<^item> \<open>Grpc_Pool\<close> (\<open>cluster/grpc_pool.rs\<close>): interleaved \<open>get\<close>, \<open>reconnect\<close>, \<open>invalidate\<close> and cancellation of
    one shared channel: single flight, availability, and the lock-up after a cancelled attempt.
  \<^item> \<open>Stats\<close> (\<open>stats.rs\<close>): counters, snapshots, persistence; sums agree, saved totals are restored.
  \<^item> \<open>Access_Store\<close> (\<open>middleware/ip_whitelist.rs\<close>, \<open>middleware/api_keys.rs\<close>): both stores refine a log of
    additions and removals (locale \<open>access_store\<close>).
  \<^item> \<open>Rate_Limiter\<close> (\<open>middleware/rate_limiter.rs\<close>): limiter tables, verdicts, memory bound, reload.
  \<^item> \<open>Firewall\<close> (\<open>middleware/firewall.rs\<close>): both backends over an abstract firewall state.
  \<^item> \<open>Http_Rpc\<close> (\<open>proxy/http_rpc.rs\<close>, \<open>proxy/websocket.rs\<close>): classification, the request handler and the
    WebSocket handler: access control, answers, accounting.
  \<^item> \<open>Geyser\<close>, \<open>Grpc_Filter\<close> (\<open>proxy/grpc_filter.rs\<close>): subscription messages; matching on compiled filters
    equals matching by the filters' meaning.
  \<^item> \<open>Dedup\<close> (\<open>proxy/grpc_mux.rs\<close>): slot tracking and the deduplicating worker with concurrent eviction
    (locale \<open>expiring_set\<close>).
  \<^item> \<open>Mux\<close> (\<open>proxy/grpc_mux.rs\<close>): backoff, both upstream loops, the per-client loop, construction.
  \<^item> \<open>Supervisor\<close> (\<open>proxy/subscribe_supervisor.rs\<close>): fleets of supervisors in every interleaving; counters
    are exact and shutdown completes.
  \<^item> \<open>Forwarder\<close>: the tasks that copy a stream into a bounded channel, shared by the two services below; in
    every interleaving they deliver in order and within capacity, and can always complete.
  \<^item> \<open>Yellowstone\<close> (\<open>proxy/grpc_yellowstone.rs\<close>) and \<open>Arpc\<close> (\<open>proxy/grpc_arpc.rs\<close>): admission, routing, direct
    streams that survive their upstreams.
  \<^item> \<open>Dashboard\<close> (\<open>dashboard/handlers.rs\<close>, \<open>dashboard/mod.rs\<close>): authentication, all handlers, the reload by
    signal. \<open>Dashboard_Routes\<close>: the routing table and the way from a request to its handler.
  \<^item> \<open>Startup\<close> (\<open>main.rs\<close>, \<open>shutdown.rs\<close>, \<open>proxy/tcp_listener.rs\<close>): the life of the process, composed of the
    parts above: start-up, accept loops, periodic tasks, signals, shutdown, restart.
  \<^item> \<open>Quotas\<close>: when a limiter in the tables is one that the configuration in force allows (used by \<open>System\<close>).
  \<^item> \<open>Tasks\<close>: the handlers of the four front ends cut at the points where they wait for a peer, with lemmas
    that the pieces in a row are the handlers, and what a task in flight holds of the shared gauges.
  \<^item> \<open>System\<close>: the whole program. A step is one piece of a client's task, an administrator's request, a
    periodic task, a reload by signal, a probe of a node, or the loss of a task; the parts of the state are
    those of the components. Access control, well-formedness of the shared state, limits that follow the
    configuration and exact gauges hold in every interleaving (interpretation of \<open>step_invariant\<close>), and
    removing an address or revoking a key takes effect at every front end.
  \<^item> \<open>Dashboard_Race\<close>: administrators' requests that overlap, with the whitelist cloned and stored in
    separate accesses and the file saved in separate system calls: no edit of the configuration is lost
    and saves settle, while the running whitelist can lose an edit.
  \<^item> \<open>Limiter_Race\<close>: checks and reloads of the limiter overlapping in its table: the memory bound survives;
    a limiter of the old configuration may, too.
  \<^item> \<open>Unit_Tests\<close>: the assertions of the repository's unit tests (\<open>proxy/grpc_mux.rs\<close>, \<open>proxy/grpc_filter.rs\<close>,
    \<open>proxy/subscribe_supervisor.rs\<close>) as statements about the model, which they check against the code.
  \<^item> \<open>Error\<close> (\<open>error.rs\<close>): the error type, which the rest of the program does not use.
  \<^item> \<open>Shadow_Test\<close> (\<open>bin/yellowstone_shadow_test.rs\<close>): the stand-alone measuring tool; it stays within its
    wallet list and prints exact differences.

  \<^bold>\<open>How state and code correspond\<close>

  A struct is a record with prefixed field names, an enum a datatype, a function a definition of the
  same name (suffixed where HOL has the name already). Atomics are words and wrap as they do; hash
  maps are association lists whose order is the unspecified iteration order. A function that does not
  await, or whose awaited calls touch nothing shared, is one atomic step; where interleaving matters
  (pool, supervisors, forwarders, deduplication, signals, front ends, the life of the process) there is a step
  relation and the properties hold in every reachable state. \<open>System\<close> takes an administrator's request and a
  limiter check as one step each; what their own accesses do to each other is in the two theories on races. Errors are values of sum types.

  \<^bold>\<open>What is taken as a parameter\<close>

  Third-party code appears as arguments with the documented facts as hypotheses: hyper's client, tonic's
  channels and streams, governor's limiters, the TOML and JSON codecs, base58, \<open>nft\<close> and \<open>iptables\<close>,
  the file system's outcomes, clocks, random bytes, schedulers (as orders of arrival). Every property
  that rests on such a hypothesis has a witness at a concrete instance.

  \<^bold>\<open>Bounds and termination\<close>

  Loops over lists are structural. Loops that run as long as a stream or the process does are folds or
  recursions over the list of events that arrive, so no fuel is needed; the bounds of the code (2048
  tracked slots, \<open>MAX_IP_LIMITERS\<close>, backoff between 1 and 15 seconds, channel capacities) are proved as
  properties.

  \<^bold>\<open>Not modelled\<close>

  The HTML page of the dashboard (\<open>dashboard/static_assets.rs\<close>, a constant), the build script, the logging
  back end and the parsing of the command line (its result is an input). Answers of the dashboard are
  values; their printing as JSON is serde's. Relaxed memory orderings are read as sequential consistency.
\<close>

end
